theory Spec2Isabelle
  imports Complex_Main
begin

section \<open>The cycle runner of \<^verbatim>\<open>bnn_priors/inference.py\<close>\<close>

text \<open>
  The development embeds the class \<^verbatim>\<open>SGLDRunner\<close>. Python integers are \<open>int\<close>,
  scalars are an ordered ring \<open>'a\<close> (instantiated with \<open>real\<close> or \<open>int\<close> where a
  concrete run is evaluated), a tensor is the list of its elements, a dictionary is a
  map, and every exception the source can raise is a value of \<open>error\<close>.
\<close>

datatype error =
  ZeroDivisionError | RuntimeError | IndexError | KeyError | AttributeError | ValueError

subsection \<open>Data\<close>

text \<open>
  An element of a gradient tensor is a float: a number, or \<^verbatim>\<open>nan\<close>, which no comparison
  orders. The gradient is what the potential's automatic differentiation leaves behind,
  and clamping is the one place where the source compares its elements.
\<close>

datatype 'a float = NaN | Num 'a

text \<open>A tracked parameter tensor: its name, its current value and its gradient.\<close>

record 'a parameter =
  p_name :: string
  p_data :: "'a list"
  p_grad :: "'a float list"

text \<open>One entry of \<^verbatim>\<open>optimizer.param_groups\<close>: the hyperparameters shared by its tensors.\<close>

record 'a param_group =
  g_lr :: 'a
  g_temperature :: 'a
  g_momentum :: 'a
  g_num_data :: 'a

text \<open>
  The optimizer object. \<^verbatim>\<open>SGLD\<close> is constructed from the tuple of all tracked tensors, so
  its group 0 holds exactly the tensors of the model; they are shared with the model and
  live in the field \<open>model\<close> of the runner. The per-tensor state dictionaries (momentum
  buffer, preconditioner, running estimates) are the abstract \<open>'o\<close>.
\<close>

record ('a, 'o) sgld =
  param_groups :: "'a param_group list"
  opt_state :: 'o

text \<open>\<^verbatim>\<open>torch.optim.lr_scheduler.LambdaLR\<close>.\<close>

record 'a lambda_lr =
  lr_lambda :: "int \<Rightarrow> 'a"
  base_lrs :: "'a list"
  last_epoch :: int

text \<open>The constructor arguments that \<^verbatim>\<open>__init__\<close> stores unchanged.\<close>

record ('a, 'b) config =
  dataloader :: "'b list"
  dataset_len :: nat
  epochs_per_cycle :: int
  warmup_epochs :: int
  sample_epochs :: int
  learning_rate :: 'a
  skip :: int
  temperature :: 'a
  data_mult :: 'a
  momentum :: 'a
  sampling_decay :: bool
  grad_max :: 'a
  cycles :: int
  precond_update :: "int option"

text \<open>
  The runner. \<open>optimizer\<close> and \<open>scheduler\<close> are \<open>None\<close> until \<^verbatim>\<open>run\<close> creates them, and
  \<open>prev_loss\<close> until the first \<^verbatim>\<open>step\<close>: reading them earlier is an \<^verbatim>\<open>AttributeError\<close>.
  \<open>summary_writer\<close> is the optional sink, as the triples it has received.
\<close>

record ('a, 'b, 'o) runner =
  cfg :: "('a, 'b) config"
  model :: "'a parameter list"
  descent_epochs :: int
  num_samples :: int
  summary_writer :: "(string \<times> 'a \<times> int) list option"
  samples :: "string \<rightharpoonup> 'a list list"
  metrics :: "string \<rightharpoonup> 'a list"
  param_names :: "string list"
  optimizer :: "('a, 'o) sgld option"
  scheduler :: "'a lambda_lr option"
  prev_loss :: "'a option"

text \<open>
  The collaborators whose code is outside \<^verbatim>\<open>inference.py\<close>: the model's potential and its
  gradient with respect to the \<open>k\<close>-th tracked tensor, the sampler's update of the
  \<open>k\<close>-th tensor and of its own state, its preconditioner estimation, the three per-tensor
  diagnostics it exposes, the schedule factory, and whether \<^verbatim>\<open>torch\<close> can build a tensor
  of a given number of elements (sizes are 64-bit and memory is finite).
\<close>

record ('a, 'b, 'o) collaborators =
  potential_avg :: "'a parameter list \<Rightarrow> 'b \<Rightarrow> 'a \<Rightarrow> 'a \<Rightarrow> 'a"
  backward :: "'a parameter list \<Rightarrow> 'b \<Rightarrow> 'a \<Rightarrow> 'a \<Rightarrow> nat \<Rightarrow> 'a float list"
  sgld_init :: "'a parameter list \<Rightarrow> 'o"
  sgld_data :: "'a param_group list \<Rightarrow> 'o \<Rightarrow> 'a parameter list \<Rightarrow> nat \<Rightarrow> 'a list"
  sgld_state :: "'a param_group list \<Rightarrow> 'o \<Rightarrow> 'a parameter list \<Rightarrow> 'o"
  estimate_preconditioner :: "'a param_group list \<Rightarrow> 'o \<Rightarrow> 'a parameter list \<Rightarrow> 'o"
  preconditioner :: "'o \<Rightarrow> nat \<Rightarrow> 'a"
  est_temperature :: "'o \<Rightarrow> nat \<Rightarrow> 'a"
  est_config_temp :: "'o \<Rightarrow> nat \<Rightarrow> 'a"
  get_cosine_schedule :: "int \<Rightarrow> int \<Rightarrow> 'a"
  fits_memory :: "nat \<Rightarrow> bool"

subsection \<open>Python idioms\<close>

text \<open>A \<^verbatim>\<open>for\<close> loop whose body may raise: the first exception ends the loop.\<close>

fun for_each :: "'x list \<Rightarrow> ('x \<Rightarrow> 's \<Rightarrow> error + 's) \<Rightarrow> 's \<Rightarrow> error + 's" where
  "for_each [] body s = Inr s"
| "for_each (x # xs) body s =
     (case body x s of Inl e \<Rightarrow> Inl e | Inr s' \<Rightarrow> for_each xs body s')"

text \<open>\<^verbatim>\<open>range(n)\<close>: empty when \<open>n \<le> 0\<close>.\<close>

definition py_range :: "int \<Rightarrow> int list" where
  "py_range n = map int [0..<nat n]"

text \<open>\<^verbatim>\<open>buf[i] = v\<close> on a tensor: a negative index counts from the end, any other index
  outside the buffer raises.\<close>

definition set_item :: "'x list \<Rightarrow> int \<Rightarrow> 'x \<Rightarrow> error + 'x list" where
  "set_item xs i v =
     (let n = int (length xs); j = (if i < 0 then n + i else i)
      in if 0 \<le> j \<and> j < n then Inr (xs[nat j := v]) else Inl IndexError)"

text \<open>\<^verbatim>\<open>torch.clamp(x, min=lo, max=hi)\<close> on one element: \<^verbatim>\<open>min(max(x, lo), hi)\<close>, and
  \<^verbatim>\<open>nan\<close> stays \<^verbatim>\<open>nan\<close>.\<close>

fun clamp :: "'a::linorder \<Rightarrow> 'a \<Rightarrow> 'a float \<Rightarrow> 'a float" where
  "clamp lo hi NaN = NaN"
| "clamp lo hi (Num x) = Num (min (max x lo) hi)"

subsection \<open>\<^verbatim>\<open>SGLDRunner.__init__\<close>\<close>

text \<open>
  \<^verbatim>\<open>torch.zeros\<close> of a leading size and the size of one slot: it raises on a negative
  size and when the tensor cannot be built.
\<close>

definition zeros :: "(nat \<Rightarrow> bool) \<Rightarrow> int \<Rightarrow> nat \<Rightarrow> error + ('a::zero) list list" where
  "zeros fits n shape =
     (if n < 0 then Inl RuntimeError
      else if \<not> fits (nat n * shape) then Inl RuntimeError
      else Inr (replicate (nat n) (replicate shape 0)))"

text \<open>One entry of the dictionary comprehension of lines 53 and 54.\<close>

definition new_buffer ::
  "('a::linordered_idom, 'b, 'o) collaborators \<Rightarrow> int \<Rightarrow> 'a parameter
     \<Rightarrow> (string \<rightharpoonup> 'a list list) \<Rightarrow> error + (string \<rightharpoonup> 'a list list)" where
  "new_buffer E n p bufs =
     (case zeros (fits_memory E) n (length (p_data p)) of
        Inl e \<Rightarrow> Inl e
      | Inr buf \<Rightarrow> Inr (bufs(p_name p @ ''.p'' \<mapsto> buf)))"

text \<open>
  \<^verbatim>\<open>sample_epochs // skip\<close> raises on \<open>skip = 0\<close>; then the buffers are built, one per
  tracked tensor and then the one of the rates, whose slot is a scalar, a tensor of one
  element. Nothing else can raise, and nothing is checked.
\<close>

definition init ::
  "('a::linordered_idom, 'b, 'o) collaborators \<Rightarrow> 'a parameter list \<Rightarrow> ('a, 'b) config
     \<Rightarrow> (string \<times> 'a \<times> int) list option \<Rightarrow> error + ('a, 'b, 'o) runner" where
  "init E mdl c writer =
     (if skip c = 0 then Inl ZeroDivisionError
      else
        let ns = sample_epochs c div skip c in
        case for_each mdl (new_buffer E (ns * cycles c)) Map.empty of
          Inl e \<Rightarrow> Inl e
        | Inr bufs \<Rightarrow>
           (case zeros (fits_memory E) (ns * cycles c) 1 of
              Inl e \<Rightarrow> Inl e
            | Inr lr_buf \<Rightarrow>
                Inr \<lparr>
                  cfg = c,
                  model = mdl,
                  descent_epochs = epochs_per_cycle c - warmup_epochs c - sample_epochs c,
                  num_samples = ns,
                  summary_writer = writer,
                  samples = bufs(''lr'' \<mapsto> lr_buf),
                  metrics = Map.empty,
                  param_names = [],
                  optimizer = None,
                  scheduler = None,
                  prev_loss = None \<rparr>))"

subsection \<open>\<^verbatim>\<open>SGLDRunner.add_scalar\<close>\<close>

definition add_scalar ::
  "string \<Rightarrow> 'a \<Rightarrow> int \<Rightarrow> ('a, 'b, 'o) runner \<Rightarrow> ('a, 'b, 'o) runner" where
  "add_scalar name v stp r =
     r\<lparr> metrics :=
          (case metrics r name of
             Some vs \<Rightarrow> (metrics r)(name \<mapsto> vs @ [v])
           | None \<Rightarrow> (metrics r)(name \<mapsto> [] @ [v])),
        summary_writer :=
          (case summary_writer r of
             None \<Rightarrow> None
           | Some w \<Rightarrow> Some (w @ [(name, v, stp)])) \<rparr>"

subsection \<open>\<^verbatim>\<open>SGLDRunner.step\<close>\<close>

text \<open>
  \<^verbatim>\<open>optimizer.zero_grad(); loss.backward()\<close>: every tracked tensor gets the gradient of
  the potential at the runner's own temperature.
\<close>

definition backward_all ::
  "('a, 'b, 'o) collaborators \<Rightarrow> 'b \<Rightarrow> ('a, 'b, 'o) runner \<Rightarrow> 'a parameter list" where
  "backward_all E xy r =
     map (\<lambda>(k, p). p\<lparr>p_grad := backward E (model r) xy (temperature (cfg r)) (data_mult (cfg r)) k\<rparr>)
       (zip [0..<length (model r)] (model r))"

text \<open>\<^verbatim>\<open>p.grad.clamp_(min=-self.grad_max, max=self.grad_max)\<close> for every tensor of group 0.\<close>

definition clamp_grads :: "'a::linordered_idom \<Rightarrow> 'a parameter list \<Rightarrow> 'a parameter list" where
  "clamp_grads gm ps = map (\<lambda>p. p\<lparr>p_grad := map (clamp (- gm) gm) (p_grad p)\<rparr>) ps"

text \<open>The tensors, with their gradients, as \<^verbatim>\<open>optimizer.step()\<close> finds them.\<close>

definition grads_at_optimizer_step ::
  "('a::linordered_idom, 'b, 'o) collaborators \<Rightarrow> 'b \<Rightarrow> ('a, 'b, 'o) runner \<Rightarrow> 'a parameter list" where
  "grads_at_optimizer_step E xy r = clamp_grads (grad_max (cfg r)) (backward_all E xy r)"

text \<open>\<^verbatim>\<open>optimizer.step()\<close>: the sampler rewrites the tensors in place and its own state.\<close>

definition optimizer_step ::
  "('a, 'b, 'o) collaborators \<Rightarrow> ('a, 'o) sgld \<Rightarrow> 'a parameter list
     \<Rightarrow> ('a, 'o) sgld \<times> 'a parameter list" where
  "optimizer_step E opt ps =
     (opt\<lparr>opt_state := sgld_state E (param_groups opt) (opt_state opt) ps\<rparr>,
      map (\<lambda>(k, p). p\<lparr>p_data := sgld_data E (param_groups opt) (opt_state opt) ps k\<rparr>)
        (zip [0..<length ps] ps))"

text \<open>\<^verbatim>\<open>for param_group, lr in zip(optimizer.param_groups, values): param_group['lr'] = lr\<close>.\<close>

fun set_lrs :: "'a param_group list \<Rightarrow> 'a list \<Rightarrow> 'a param_group list" where
  "set_lrs (g # gs) (l # ls) = g\<lparr>g_lr := l\<rparr> # set_lrs gs ls"
| "set_lrs gs ls = gs"

text \<open>\<^verbatim>\<open>scheduler.step()\<close>: the counter advances and every group's rate is recomputed
  from its base rate.\<close>

definition scheduler_step ::
  "('a::linordered_idom, 'b, 'o) runner \<Rightarrow> error + ('a, 'b, 'o) runner" where
  "scheduler_step r =
     (case scheduler r of
        None \<Rightarrow> Inl AttributeError
      | Some s \<Rightarrow>
         (case optimizer r of
            None \<Rightarrow> Inl AttributeError
          | Some opt \<Rightarrow>
              let e = last_epoch s + 1 in
              Inr (r\<lparr> scheduler := Some (s\<lparr>last_epoch := e\<rparr>),
                      optimizer := Some (opt\<lparr>param_groups :=
                         set_lrs (param_groups opt) (map (\<lambda>b. b * lr_lambda s e) (base_lrs s))\<rparr>) \<rparr>)))"

text \<open>Lines 143 to 147: three diagnostics per tracked tensor.\<close>

definition log_param_metrics ::
  "('a, 'b, 'o) collaborators \<Rightarrow> int \<Rightarrow> 'o \<Rightarrow> (nat \<times> string) list
     \<Rightarrow> ('a, 'b, 'o) runner \<Rightarrow> ('a, 'b, 'o) runner" where
  "log_param_metrics E i st kns r =
     fold (\<lambda>(k, n) r'.
            add_scalar (''est_config_temp/'' @ n) (est_config_temp E st k) i
              (add_scalar (''est_temperature/'' @ n) (est_temperature E st k) i
                (add_scalar (''preconditioner/'' @ n) (preconditioner E st k) i r')))
       kns r"

text \<open>Lines 143 to 156: everything \<^verbatim>\<open>step\<close> does after the scheduler.\<close>

definition log_step ::
  "('a::linordered_idom, 'b, 'o) collaborators \<Rightarrow> int \<Rightarrow> 'a \<Rightarrow> ('a, 'b, 'o) runner
     \<Rightarrow> error + ('a \<times> ('a, 'b, 'o) runner)" where
  "log_step E i loss r =
     (case optimizer r of
        None \<Rightarrow> Inl AttributeError
      | Some opt \<Rightarrow>
         (case param_groups opt of
            [] \<Rightarrow> Inl IndexError
          | g0 # _ \<Rightarrow>
              let r3 = log_param_metrics E i (opt_state opt)
                         (zip [0..<length (model r)] (param_names r)) r;
                  r4 = add_scalar ''lr'' (g_lr g0) i r3;
                  r5 = add_scalar ''loss'' loss i r4
              in if i > 0 then
                   (case prev_loss r5 of
                      None \<Rightarrow> Inl AttributeError
                    | Some pl \<Rightarrow>
                        Inr (loss, (add_scalar ''log_prob_accept'' (pl - loss) (i - 1) r5)
                                     \<lparr>prev_loss := Some loss\<rparr>))
                 else Inr (loss, r5\<lparr>prev_loss := Some loss\<rparr>)))"

definition step ::
  "('a::linordered_idom, 'b, 'o) collaborators \<Rightarrow> int \<Rightarrow> 'b \<Rightarrow> bool \<Rightarrow> ('a, 'b, 'o) runner
     \<Rightarrow> error + ('a \<times> ('a, 'b, 'o) runner)" where
  "step E i xy lr_decay r =
     (case optimizer r of
        None \<Rightarrow> Inl AttributeError
      | Some opt \<Rightarrow>
         (case param_groups opt of
            [] \<Rightarrow> Inl IndexError
          | g0 # _ \<Rightarrow>
              let loss = potential_avg E (model r) xy (temperature (cfg r)) (data_mult (cfg r));
                  os = optimizer_step E opt (grads_at_optimizer_step E xy r);
                  r1 = r\<lparr>model := snd os, optimizer := Some (fst os)\<rparr>
              in (case (if lr_decay then scheduler_step r1 else Inr r1) of
                    Inl e \<Rightarrow> Inl e
                  | Inr r2 \<Rightarrow> log_step E i loss r2)))"

subsection \<open>\<^verbatim>\<open>SGLDRunner.run\<close>\<close>

text \<open>
  Lines 68 to 76. Unpacking \<^verbatim>\<open>zip(*...)\<close> of no tensors raises. The optimizer gets one
  group; \<^verbatim>\<open>LambdaLR\<close> records the base rates and performs its initial step, which leaves
  the counter at 0 and the rate at the base rate times the schedule at 0.
\<close>

definition run_setup ::
  "('a::linordered_idom, 'b, 'o) collaborators \<Rightarrow> ('a, 'b, 'o) runner
     \<Rightarrow> error + ('a, 'b, 'o) runner" where
  "run_setup E r =
     (case model r of
        [] \<Rightarrow> Inl ValueError
      | _ # _ \<Rightarrow>
          let c = cfg r;
              schedule = get_cosine_schedule E (int (length (dataloader c)) * epochs_per_cycle c);
              g = \<lparr> g_lr = learning_rate c * schedule 0,
                    g_temperature = temperature c,
                    g_momentum = momentum c,
                    g_num_data = of_nat (dataset_len c) * data_mult c \<rparr>
          in Inr (r\<lparr> param_names := map p_name (model r),
                     optimizer := Some \<lparr> param_groups = [g], opt_state = sgld_init E (model r) \<rparr>,
                     scheduler := Some \<lparr> lr_lambda = schedule,
                                          base_lrs = [learning_rate c],
                                          last_epoch = 0 \<rparr> \<rparr>))"

text \<open>Lines 91 and 92: the phase temperature of every group.\<close>

definition set_phase_temperature ::
  "int \<Rightarrow> ('a::linordered_idom, 'b, 'o) runner \<Rightarrow> error + ('a, 'b, 'o) runner" where
  "set_phase_temperature epoch r =
     (case optimizer r of
        None \<Rightarrow> Inl AttributeError
      | Some opt \<Rightarrow>
          Inr (r\<lparr>optimizer := Some (opt\<lparr>param_groups :=
                 map (\<lambda>g. g\<lparr>g_temperature :=
                              (if epoch < descent_epochs r then 0 else temperature (cfg r))\<rparr>)
                   (param_groups opt)\<rparr>)\<rparr>))"

text \<open>Lines 94 to 96: one \<^verbatim>\<open>step\<close> per batch, the within-cycle counter advancing.\<close>

definition step_batch ::
  "('a::linordered_idom, 'b, 'o) collaborators \<Rightarrow> 'b \<Rightarrow> int \<times> ('a, 'b, 'o) runner
     \<Rightarrow> error + (int \<times> ('a, 'b, 'o) runner)" where
  "step_batch E xy sr =
     (case step E (fst sr) xy True (snd sr) of
        Inl e \<Rightarrow> Inl e
      | Inr (_, r') \<Rightarrow> Inr (fst sr + 1, r'))"

text \<open>Lines 99 to 101. \<^verbatim>\<open>epoch % 0\<close> raises.\<close>

definition maybe_estimate ::
  "('a, 'b, 'o) collaborators \<Rightarrow> int \<Rightarrow> ('a, 'b, 'o) runner \<Rightarrow> error + ('a, 'b, 'o) runner" where
  "maybe_estimate E epoch r =
     (case precond_update (cfg r) of
        None \<Rightarrow> Inr r
      | Some k \<Rightarrow>
          if k = 0 then Inl ZeroDivisionError
          else if epoch mod k = 0 then
            (case optimizer r of
               None \<Rightarrow> Inl AttributeError
             | Some opt \<Rightarrow>
                 Inr (r\<lparr>optimizer := Some (opt\<lparr>opt_state :=
                        estimate_preconditioner E (param_groups opt) (opt_state opt) (model r)\<rparr>)\<rparr>))
          else Inr r)"

text \<open>\<^verbatim>\<open>self._samples[key][idx] = v\<close>.\<close>

definition write_sample ::
  "string \<Rightarrow> int \<Rightarrow> 'a list \<Rightarrow> ('a, 'b, 'o) runner \<Rightarrow> error + ('a, 'b, 'o) runner" where
  "write_sample key idx v r =
     (case samples r key of
        None \<Rightarrow> Inl KeyError
      | Some buf \<Rightarrow>
         (case set_item buf idx v of
            Inl e \<Rightarrow> Inl e
          | Inr buf' \<Rightarrow> Inr (r\<lparr>samples := (samples r)(key \<mapsto> buf')\<rparr>)))"

text \<open>Lines 103 to 108. The \<^verbatim>\<open>and\<close> evaluates \<^verbatim>\<open>sampling_epoch % self.skip\<close> only when
  the offset is not negative.\<close>

definition record_samples ::
  "int \<Rightarrow> int \<Rightarrow> ('a, 'b, 'o) runner \<Rightarrow> error + ('a, 'b, 'o) runner" where
  "record_samples cycle epoch r =
     (let sampling_epoch = epoch - (descent_epochs r + warmup_epochs (cfg r)) in
      if 0 \<le> sampling_epoch then
        (if skip (cfg r) = 0 then Inl ZeroDivisionError
         else if sampling_epoch mod skip (cfg r) = 0 then
           (let idx = num_samples r * cycle + sampling_epoch div skip (cfg r) in
            case for_each (model r) (\<lambda>p. write_sample (p_name p @ ''.p'') idx (p_data p)) r of
              Inl e \<Rightarrow> Inl e
            | Inr r' \<Rightarrow>
               (case optimizer r' of
                  None \<Rightarrow> Inl AttributeError
                | Some opt \<Rightarrow>
                   (case param_groups opt of
                      [] \<Rightarrow> Inl IndexError
                    | g0 # _ \<Rightarrow> write_sample ''lr'' idx [g_lr g0] r')))
         else Inr r)
      else Inr r)"

text \<open>The body of the loop over epochs, lines 88 to 108, on the pair of the within-cycle
  step counter and the runner.\<close>

definition run_epoch ::
  "('a::linordered_idom, 'b, 'o) collaborators \<Rightarrow> int \<Rightarrow> int \<Rightarrow> int \<times> ('a, 'b, 'o) runner
     \<Rightarrow> error + (int \<times> ('a, 'b, 'o) runner)" where
  "run_epoch E cycle epoch sr =
     (case set_phase_temperature epoch (snd sr) of
        Inl e \<Rightarrow> Inl e
      | Inr r1 \<Rightarrow>
         (case for_each (dataloader (cfg r1)) (step_batch E) (fst sr, r1) of
            Inl e \<Rightarrow> Inl e
          | Inr sr2 \<Rightarrow>
             (case maybe_estimate E epoch (snd sr2) of
                Inl e \<Rightarrow> Inl e
              | Inr r3 \<Rightarrow>
                 (case record_samples cycle epoch r3 of
                    Inl e \<Rightarrow> Inl e
                  | Inr r4 \<Rightarrow> Inr (fst sr2, r4)))))"

text \<open>The body of the loop over cycles: the step counter restarts at 0.\<close>

definition run_cycle ::
  "('a::linordered_idom, 'b, 'o) collaborators \<Rightarrow> int \<Rightarrow> ('a, 'b, 'o) runner
     \<Rightarrow> error + ('a, 'b, 'o) runner" where
  "run_cycle E cycle r =
     (case for_each (py_range (epochs_per_cycle (cfg r))) (run_epoch E cycle) (0, r) of
        Inl e \<Rightarrow> Inl e
      | Inr sr \<Rightarrow> Inr (snd sr))"

definition run ::
  "('a::linordered_idom, 'b, 'o) collaborators \<Rightarrow> ('a, 'b, 'o) runner
     \<Rightarrow> error + ('a, 'b, 'o) runner" where
  "run E r =
     (case run_setup E r of
        Inl e \<Rightarrow> Inl e
      | Inr r0 \<Rightarrow> for_each (py_range (cycles (cfg r0))) (run_cycle E) r0)"

text \<open>\<^verbatim>\<open>get_samples\<close> returns the buffer dictionary.\<close>

definition get_samples :: "('a, 'b, 'o) runner \<Rightarrow> (string \<rightharpoonup> 'a list list)" where
  "get_samples r = samples r"

subsection \<open>Collaborators modelled from the specification\<close>

text \<open>
  Modelled from the spec: \<^verbatim>\<open>get_cosine_schedule\<close> of \<^verbatim>\<open>bnn_priors/utils.py\<close>, which is
  not among the sources. The specification gives "cosine decay from 1 to 0 over the full
  \<^verbatim>\<open>epochs_per_cycle \<times> batches_per_epoch\<close> steps, reset at the start of every cycle": the
  factor at step \<open>k\<close> of a schedule over \<open>T\<close> steps is half of one plus the cosine of
  \<open>pi\<close> times the fraction of the cycle that has passed, over the reals.
\<close>

definition cosine_schedule :: "int \<Rightarrow> int \<Rightarrow> real" where
  "cosine_schedule T k = (1 + cos (pi * real_of_int (k mod T) / real_of_int T)) / 2"

text \<open>
  Modelled from the spec: the sampler \<^verbatim>\<open>VerletSGLD\<close> of \<^verbatim>\<open>bnn_priors/mcmc\<close>, which is not
  among the sources (only its test is). Its state is the parameter values, the momentum
  buffers, the temperature, and the snapshot that \<^verbatim>\<open>initial_step\<close> may store. The
  specification does not fix the arithmetic of the half steps and of the full step, so
  they are parameters acting on values and momenta; each operation returns the potential
  at the values it finds. \<^verbatim>\<open>initial_step\<close> "optionally stores a deep copy of all
  parameter values and momenta before mutating".
\<close>

record verlet =
  v_params :: "real list list"
  v_momenta :: "real list list"
  v_temperature :: real
  v_saved :: "(real list list \<times> real list list) option"

definition apply_update ::
  "(real list list \<times> real list list \<Rightarrow> real list list \<times> real list list) \<Rightarrow> verlet \<Rightarrow> verlet" where
  "apply_update f s =
     s\<lparr>v_params := fst (f (v_params s, v_momenta s)), v_momenta := snd (f (v_params s, v_momenta s))\<rparr>"

definition initial_step ::
  "(real list list \<Rightarrow> real) \<Rightarrow> (real list list \<times> real list list \<Rightarrow> real list list \<times> real list list)
     \<Rightarrow> bool \<Rightarrow> verlet \<Rightarrow> real \<times> verlet" where
  "initial_step potential first_half save_state s =
     (potential (v_params s),
      apply_update first_half
        (if save_state then s\<lparr>v_saved := Some (v_params s, v_momenta s)\<rparr> else s))"

definition verlet_step ::
  "(real list list \<Rightarrow> real) \<Rightarrow> (real list list \<times> real list list \<Rightarrow> real list list \<times> real list list)
     \<Rightarrow> verlet \<Rightarrow> real \<times> verlet" where
  "verlet_step potential full s = (potential (v_params s), apply_update full s)"

definition final_step ::
  "(real list list \<Rightarrow> real) \<Rightarrow> (real list list \<times> real list list \<Rightarrow> real list list \<times> real list list)
     \<Rightarrow> verlet \<Rightarrow> real \<times> verlet" where
  "final_step potential second_half s = (potential (v_params s), apply_update second_half s)"

text \<open>
  Modelled from the spec: \<^verbatim>\<open>maybe_reject(delta_energy)\<close> "draws u~Uniform(0,1); rejects
  (restoring saved state from \<^verbatim>\<open>initial_step\<close>) iff u > exp(-delta_energy/temperature);
  returns whether rejected". The draw \<open>u\<close> is an argument. Dividing by a zero
  temperature raises, and rejecting without a snapshot is the protocol violation that
  must fail.
\<close>

definition maybe_reject :: "real \<Rightarrow> real \<Rightarrow> verlet \<Rightarrow> error + (bool \<times> verlet)" where
  "maybe_reject u delta_energy s =
     (if v_temperature s = 0 then Inl ZeroDivisionError
      else if u > exp (- delta_energy / v_temperature s) then
        (case v_saved s of
           None \<Rightarrow> Inl RuntimeError
         | Some saved \<Rightarrow> Inr (True, s\<lparr>v_params := fst saved, v_momenta := snd saved\<rparr>))
      else Inr (False, s))"

text \<open>The trajectory of the test loop (lines 78 to 101 of \<^verbatim>\<open>test_verlet_sgld.py\<close>) between
  two decisions: \<^verbatim>\<open>initial_step\<close> with \<^verbatim>\<open>save_state=True\<close>, \<open>n\<close> full steps, and
  \<^verbatim>\<open>final_step\<close>; it yields the loss before, the loss after, and the sampler.\<close>

fun interior_steps ::
  "(real list list \<Rightarrow> real) \<Rightarrow> (real list list \<times> real list list \<Rightarrow> real list list \<times> real list list)
     \<Rightarrow> nat \<Rightarrow> verlet \<Rightarrow> verlet" where
  "interior_steps potential full 0 s = s"
| "interior_steps potential full (Suc n) s =
     interior_steps potential full n (snd (verlet_step potential full s))"

definition proposal ::
  "(real list list \<Rightarrow> real)
     \<Rightarrow> (real list list \<times> real list list \<Rightarrow> real list list \<times> real list list)
     \<Rightarrow> (real list list \<times> real list list \<Rightarrow> real list list \<times> real list list)
     \<Rightarrow> (real list list \<times> real list list \<Rightarrow> real list list \<times> real list list)
     \<Rightarrow> nat \<Rightarrow> verlet \<Rightarrow> real \<times> real \<times> verlet" where
  "proposal potential first_half full second_half n s =
     (let (loss0, s1) = initial_step potential first_half True s;
          s2 = interior_steps potential full n s1;
          (loss, s3) = final_step potential second_half s2
      in (loss0, loss, s3))"

subsection \<open>The sampler's record\<close>

text \<open>
  The collaborators \<open>E\<close> with a sampler that also keeps a record: its state is the state
  of the sampler of \<open>E\<close> paired with the param groups of every call of
  \<^verbatim>\<open>optimizer.step()\<close> so far. The potential, the gradient, the updates and the diagnostics
  are those of \<open>E\<close>.
\<close>

definition spy ::
  "('a, 'b, 'o) collaborators \<Rightarrow> ('a, 'b, 'o \<times> 'a param_group list list) collaborators" where
  "spy E =
     \<lparr> potential_avg = potential_avg E,
       backward = backward E,
       sgld_init = (\<lambda>ps. (sgld_init E ps, [])),
       sgld_data = (\<lambda>gs st ps. sgld_data E gs (fst st) ps),
       sgld_state = (\<lambda>gs st ps. (sgld_state E gs (fst st) ps, snd st @ [gs])),
       estimate_preconditioner = (\<lambda>gs st ps. (estimate_preconditioner E gs (fst st) ps, snd st)),
       preconditioner = (\<lambda>st. preconditioner E (fst st)),
       est_temperature = (\<lambda>st. est_temperature E (fst st)),
       est_config_temp = (\<lambda>st. est_config_temp E (fst st)),
       get_cosine_schedule = get_cosine_schedule E,
       fits_memory = fits_memory E \<rparr>"

text \<open>The optimizer and the runner without the record.\<close>

definition unspied_sgld :: "('a, 'o \<times> 'x) sgld \<Rightarrow> ('a, 'o) sgld" where
  "unspied_sgld opt = \<lparr>param_groups = param_groups opt, opt_state = fst (opt_state opt)\<rparr>"

definition unspied :: "('a, 'b, 'o \<times> 'x) runner \<Rightarrow> ('a, 'b, 'o) runner" where
  "unspied r =
     \<lparr> cfg = cfg r, model = model r, descent_epochs = descent_epochs r,
       num_samples = num_samples r, summary_writer = summary_writer r, samples = samples r,
       metrics = metrics r, param_names = param_names r,
       optimizer = map_option unspied_sgld (optimizer r),
       scheduler = scheduler r, prev_loss = prev_loss r \<rparr>"

subsection \<open>Concrete inputs\<close>

text \<open>
  A small instance of the collaborators, used where a run is evaluated: the potential is
  the sum of all elements scaled by the temperature and the data multiplier it is called
  with, the gradient of an element is five times its value, scaled alike, the sampler
  subtracts the gradient (where it is a number) and counts its calls, the schedule is a
  parameter, and tensors of up to 1000 elements can be built.
\<close>

definition descend :: "'a::linordered_idom \<times> 'a float \<Rightarrow> 'a" where
  "descend xg = (case snd xg of NaN \<Rightarrow> fst xg | Num g \<Rightarrow> fst xg - g)"

definition toy :: "(int \<Rightarrow> int \<Rightarrow> 'a) \<Rightarrow> ('a::linordered_idom, unit, nat) collaborators" where
  "toy sch =
     \<lparr> potential_avg = (\<lambda>ps xy t dm. t * dm * sum_list (concat (map p_data ps))),
       backward = (\<lambda>ps xy t dm k. map (\<lambda>x. Num (t * dm * (5 * x))) (p_data (ps ! k))),
       sgld_init = (\<lambda>ps. 0),
       sgld_data = (\<lambda>gs st ps k. map descend (zip (p_data (ps ! k)) (p_grad (ps ! k)))),
       sgld_state = (\<lambda>gs st ps. Suc st),
       estimate_preconditioner = (\<lambda>gs st ps. st),
       preconditioner = (\<lambda>st k. 1),
       est_temperature = (\<lambda>st k. of_nat st),
       est_config_temp = (\<lambda>st k. of_nat k),
       get_cosine_schedule = sch,
       fits_memory = (\<lambda>n. n \<le> 1000) \<rparr>"

text \<open>A configuration with one batch per epoch, given the epoch split, the stride and
  the number of cycles.\<close>

definition conf :: "int \<Rightarrow> int \<Rightarrow> int \<Rightarrow> int \<Rightarrow> int \<Rightarrow> ('a::linordered_idom, unit) config" where
  "conf e w s k c =
     \<lparr> dataloader = [()], dataset_len = 1, epochs_per_cycle = e, warmup_epochs = w,
       sample_epochs = s, learning_rate = 1, skip = k, temperature = 1, data_mult = 1,
       momentum = 0, sampling_decay = True, grad_max = 3, cycles = c, precond_update = None \<rparr>"

text \<open>A model with one tracked tensor of two elements.\<close>

definition one_tensor :: "('a::linordered_idom) parameter list" where
  "one_tensor = [\<lparr>p_name = ''w'', p_data = [1, - 2], p_grad = []\<rparr>]"

text \<open>A schedule on the integers that falls from \<open>T\<close> and restarts every \<open>T\<close> steps;
  it stands in for the cosine where a run is evaluated on integers.\<close>

definition linear_schedule :: "int \<Rightarrow> int \<Rightarrow> int" where
  "linear_schedule T k = T - k mod T"

text \<open>The scenario \<^verbatim>\<open>epochs_per_cycle=10, warmup_epochs=3, sample_epochs=5, skip=1, cycles=1\<close>:
  the runner as \<^verbatim>\<open>__init__\<close> returns it, as \<^verbatim>\<open>run\<close> has it before the first cycle, after
  the phase temperature of epoch 0 is set, after the one batch of epoch 0, and after one
  more step.\<close>

definition fresh :: "(int, unit, nat) runner" where
  "fresh = projr (init (toy linear_schedule) one_tensor (conf 10 3 5 1 1) None)"

definition ready :: "(int, unit, nat) runner" where
  "ready = projr (run_setup (toy linear_schedule) fresh)"

definition descending :: "(int, unit, nat) runner" where
  "descending = projr (set_phase_temperature 0 ready)"

text \<open>The same collaborators with a gradient whose first element is \<^verbatim>\<open>nan\<close>, and the
  runner \<open>ready\<close> with a negative bound on the gradient.\<close>

definition nan_toy :: "(int, unit, nat) collaborators" where
  "nan_toy = (toy linear_schedule)\<lparr>backward := (\<lambda>ps xy t dm k. [NaN, Num 7])\<rparr>"

definition inverted :: "(int, unit, nat) runner" where
  "inverted = ready\<lparr>cfg := (cfg ready)\<lparr>grad_max := - 3\<rparr>\<rparr>"

definition stepped :: "(int, unit, nat) runner" where
  "stepped = snd (projr (for_each [()] (step_batch (toy linear_schedule)) (0, descending)))"

definition stepped_twice :: "(int, unit, nat) runner" where
  "stepped_twice = snd (projr (step (toy linear_schedule) 1 () True stepped))"

text \<open>The scenario to its end.\<close>

definition finished :: "(int, unit, nat) runner" where
  "finished = projr (run (toy linear_schedule) fresh)"

text \<open>The scenario with \<^verbatim>\<open>skip=2\<close>, which does not divide \<^verbatim>\<open>sample_epochs=5\<close>: with one
  cycle, and with two cycles after the first of them.\<close>

definition strided :: "(int, unit, nat) runner" where
  "strided = projr (init (toy linear_schedule) one_tensor (conf 10 3 5 2 1) None)"

definition strided_twice :: "(int, unit, nat) runner" where
  "strided_twice = projr (run_cycle (toy linear_schedule) 0
     (projr (run_setup (toy linear_schedule)
        (projr (init (toy linear_schedule) one_tensor (conf 10 3 5 2 2) None)))))"

text \<open>A run of two cycles of three epochs (one of descent, one of warm-up, one of
  sampling) with the sampler's record.\<close>

definition short :: "(int, unit, nat \<times> int param_group list list) runner" where
  "short = projr (init (spy (toy linear_schedule)) one_tensor (conf 3 1 1 1 2) None)"

definition short_done :: "(int, unit, nat \<times> int param_group list list) runner" where
  "short_done = projr (run (spy (toy linear_schedule)) short)"



definition flat_fresh :: "(real, unit, nat \<times> real param_group list list) runner" where
  "flat_fresh = projr (init (spy (toy cosine_schedule)) one_tensor (conf 2 0 2 1 1) None)"

definition flat_done :: "(real, unit, nat \<times> real param_group list list) runner" where
  "flat_done = projr (run (spy (toy cosine_schedule)) flat_fresh)"



text \<open>A sampler state, an update that adds one to every value and momentum, and the
  potential that sums all values.\<close>

definition walker :: verlet where
  "walker = \<lparr>v_params = [[1, 2]], v_momenta = [[0, 0]], v_temperature = 1, v_saved = None\<rparr>"

definition drift :: "real list list \<times> real list list \<Rightarrow> real list list \<times> real list list" where
  "drift pm = (map (map (\<lambda>x. x + 1)) (fst pm), map (map (\<lambda>m. m + 1)) (snd pm))"

definition sum_potential :: "real list list \<Rightarrow> real" where
  "sum_potential ps = sum_list (concat ps)"

subsection \<open>Observations\<close>

text \<open>The values logged so far under a metric name; none when the name was never logged.\<close>

definition series :: "('a, 'b, 'o) runner \<Rightarrow> string \<Rightarrow> 'a list" where
  "series r name = (case metrics r name of None \<Rightarrow> [] | Some vs \<Rightarrow> vs)"

text \<open>A gradient element lies in the range of the bound \<open>gm\<close>: it is a number, not below
  \<open>- gm\<close> and not above \<open>gm\<close>.\<close>

definition in_range :: "'a::linordered_idom \<Rightarrow> 'a float \<Rightarrow> bool" where
  "in_range gm g = (case g of NaN \<Rightarrow> False | Num x \<Rightarrow> - gm \<le> x \<and> x \<le> gm)"

text \<open>The temperature field of every group of the optimizer, in order.\<close>

definition group_temperatures :: "('a, 'b, 'o) runner \<Rightarrow> 'a list" where
  "group_temperatures r =
     (case optimizer r of None \<Rightarrow> [] | Some opt \<Rightarrow> map g_temperature (param_groups opt))"

text \<open>What lines 145 to 147 append to the series \<open>name\<close> for the \<open>k\<close>-th tensor, named
  \<open>n\<close>.\<close>

definition param_entries ::
  "('a, 'b, 'o) collaborators \<Rightarrow> 'o \<Rightarrow> string \<Rightarrow> nat \<times> string \<Rightarrow> 'a list" where
  "param_entries E st name kn =
     (if name = ''preconditioner/'' @ snd kn then [preconditioner E st (fst kn)] else [])
     @ (if name = ''est_temperature/'' @ snd kn then [est_temperature E st (fst kn)] else [])
     @ (if name = ''est_config_temp/'' @ snd kn then [est_config_temp E st (fst kn)] else [])"

text \<open>What one call of \<^verbatim>\<open>step\<close> appends to the series \<open>name\<close>, given the sampler state,
  the rate and the loss it logs and the loss of the step before.\<close>

definition logged ::
  "('a::linordered_idom, 'b, 'o) collaborators \<Rightarrow> int \<Rightarrow> 'o \<Rightarrow> (nat \<times> string) list
     \<Rightarrow> 'a \<Rightarrow> 'a \<Rightarrow> 'a \<Rightarrow> string \<Rightarrow> 'a list" where
  "logged E i st kns lr loss pl name =
     concat (map (param_entries E st name) kns)
     @ (if name = ''lr'' then [lr] else [])
     @ (if name = ''loss'' then [loss] else [])
     @ (if name = ''log_prob_accept'' \<and> 0 < i then [pl - loss] else [])"

text \<open>The runner with its \<^verbatim>\<open>sampling_decay\<close> flag set to \<open>b\<close>.\<close>

definition with_sampling_decay :: "bool \<Rightarrow> ('a, 'b, 'o) runner \<Rightarrow> ('a, 'b, 'o) runner" where
  "with_sampling_decay b r = r\<lparr>cfg := (cfg r)\<lparr>sampling_decay := b\<rparr>\<rparr>"

text \<open>The learning rate of every group of the optimizer, in order.\<close>

definition group_lrs :: "('a, 'b, 'o) runner \<Rightarrow> 'a list" where
  "group_lrs r = (case optimizer r of None \<Rightarrow> [] | Some opt \<Rightarrow> map g_lr (param_groups opt))"

text \<open>Line 103: the epoch whose offset into the sampling phase is 0.\<close>

definition first_sampling_epoch :: "('a, 'b, 'o) runner \<Rightarrow> int" where
  "first_sampling_epoch r = descent_epochs r + warmup_epochs (cfg r)"

text \<open>
  A sampler that records its calls: \<open>seen\<close> reads from its state the param groups of every
  call of \<^verbatim>\<open>optimizer.step()\<close> so far, in order; the state is new with no call, every
  call adds the groups it finds, and the estimation of the preconditioner adds nothing.
\<close>

definition recording ::
  "('a, 'b, 'o) collaborators \<Rightarrow> ('o \<Rightarrow> 'a param_group list list) \<Rightarrow> bool" where
  "recording E seen \<longleftrightarrow>
     (\<forall>ps. seen (sgld_init E ps) = [])
     \<and> (\<forall>gs st ps. seen (sgld_state E gs st ps) = seen st @ [gs])
     \<and> (\<forall>gs st ps. seen (estimate_preconditioner E gs st ps) = seen st)"

text \<open>The param groups of every call of \<^verbatim>\<open>optimizer.step()\<close> up to the runner \<open>r\<close>.\<close>

definition groups_seen ::
  "('o \<Rightarrow> 'a param_group list list) \<Rightarrow> ('a, 'b, 'o) runner \<Rightarrow> 'a param_group list list" where
  "groups_seen seen r = (case optimizer r of None \<Rightarrow> [] | Some opt \<Rightarrow> seen (opt_state opt))"


text \<open>The collaborators whose potential and gradient disregard the temperature and the
  data multiplier they are called with, and use \<open>T\<close> and \<open>D\<close>.\<close>

definition at_temperature ::
  "'a \<Rightarrow> 'a \<Rightarrow> ('a, 'b, 'o) collaborators \<Rightarrow> ('a, 'b, 'o) collaborators" where
  "at_temperature T D E =
     E\<lparr> potential_avg := (\<lambda>ps xy t dm. potential_avg E ps xy T D),
        backward := (\<lambda>ps xy t dm k. backward E ps xy T D k) \<rparr>"

text \<open>The configuration is \<open>c\<close>, the optimizer has one group, and the temperatures of the
  groups of every call of \<^verbatim>\<open>optimizer.step()\<close> so far are \<open>ys\<close>.\<close>

definition heated ::
  "('o \<Rightarrow> 'a param_group list list) \<Rightarrow> ('a, 'b) config \<Rightarrow> int \<Rightarrow> 'a list list
     \<Rightarrow> ('a, 'b, 'o) runner \<Rightarrow> bool" where
  "heated seen c d ys r \<longleftrightarrow>
     cfg r = c \<and> descent_epochs r = d
     \<and> (\<exists>opt. optimizer r = Some opt \<and> length (param_groups opt) = 1)
     \<and> map (map g_temperature) (groups_seen seen r) = ys"

text \<open>The scheduler has counted \<open>k\<close> steps, and the one group's rate is the base rate \<open>L\<close>
  times the schedule at \<open>k\<close>; the configuration is \<open>c\<close>.\<close>

definition scheduled ::
  "'a::linordered_idom \<Rightarrow> (int \<Rightarrow> 'a) \<Rightarrow> ('a, 'b) config \<Rightarrow> int \<Rightarrow> ('a, 'b, 'o) runner \<Rightarrow> bool" where
  "scheduled L sch c k r \<longleftrightarrow>
     cfg r = c
     \<and> (\<exists>opt s g. optimizer r = Some opt \<and> param_groups opt = [g] \<and> g_lr g = L * sch k
           \<and> scheduler r = Some s \<and> lr_lambda s = sch \<and> base_lrs s = [L] \<and> last_epoch s = k)"

text \<open>Moreover the rates of the groups of the \<open>k\<close> calls of \<^verbatim>\<open>optimizer.step()\<close> so far
  are the base rate times the schedule at 0, 1, and so on.\<close>

definition rated ::
  "('o \<Rightarrow> 'a param_group list list) \<Rightarrow> 'a::linordered_idom \<Rightarrow> (int \<Rightarrow> 'a) \<Rightarrow> ('a, 'b) config
     \<Rightarrow> int \<Rightarrow> ('a, 'b, 'o) runner \<Rightarrow> bool" where
  "rated seen L sch c k r \<longleftrightarrow>
     0 \<le> k \<and> scheduled L sch c k r
     \<and> map (map g_lr) (groups_seen seen r) = map (\<lambda>n. [L * sch (int n)]) [0..<nat k]"

section \<open>Construction\<close>

lemma zeros_Inr:
  "zeros fits n shape = Inr b \<longleftrightarrow>
     0 \<le> n \<and> fits (nat n * shape) \<and> b = replicate (nat n) (replicate shape 0)"
  by (auto simp: zeros_def)

lemma zeros_Inl: "zeros fits n shape = Inl e \<Longrightarrow> e = RuntimeError"
  by (auto simp: zeros_def split: if_splits)

lemma new_buffers_Inl:
  "for_each mdl (new_buffer E n) bufs = Inl e \<Longrightarrow> e = RuntimeError"
proof (induction mdl arbitrary: bufs)
  case Nil
  then show ?case by simp
next
  case (Cons p ps)
  then show ?case
    by (auto simp: new_buffer_def split: sum.splits dest: zeros_Inl)
qed

lemma new_buffers_isl:
  "isl (for_each mdl (new_buffer E n) bufs)
     \<longleftrightarrow> mdl \<noteq> [] \<and> (n < 0 \<or> (\<exists>p \<in> set mdl. \<not> fits_memory E (nat n * length (p_data p))))"
proof (induction mdl arbitrary: bufs)
  case Nil
  then show ?case by simp
next
  case (Cons p ps)
  show ?case
  proof (cases "zeros (fits_memory E) n (length (p_data p)) :: error + 'a list list")
    case (Inl e)
    then show ?thesis
      by (auto simp: new_buffer_def zeros_def split: if_splits)
  next
    case (Inr b)
    then have ok: "0 \<le> n" "fits_memory E (nat n * length (p_data p))"
      by (simp_all add: zeros_Inr)
    define A where "A = isl (for_each (p # ps) (new_buffer E n) bufs)"
    from Inr have "for_each (p # ps) (new_buffer E n) bufs
        = for_each ps (new_buffer E n) (bufs(p_name p @ ''.p'' \<mapsto> b))"
      by (simp add: new_buffer_def)
    then have "A \<longleftrightarrow> ps \<noteq> [] \<and> (n < 0 \<or> (\<exists>p \<in> set ps. \<not> fits_memory E (nat n * length (p_data p))))"
      unfolding A_def by (simp only: Cons.IH)
    with ok have "A \<longleftrightarrow> p # ps \<noteq> []
        \<and> (n < 0 \<or> (\<exists>q \<in> set (p # ps). \<not> fits_memory E (nat n * length (p_data q))))"
      by auto
    then show ?thesis unfolding A_def .
  qed
qed

lemma init_Inr_fields:
  "init E mdl c w = Inr r \<Longrightarrow>
     cfg r = c \<and> model r = mdl
     \<and> descent_epochs r = epochs_per_cycle c - warmup_epochs c - sample_epochs c
     \<and> num_samples r = sample_epochs c div skip c
     \<and> metrics r = Map.empty \<and> optimizer r = None \<and> scheduler r = None \<and> prev_loss r = None"
  by (auto simp: init_def Let_def split: if_splits sum.splits)

text \<open>
  Claim C2, amended. The constructor validates nothing. It raises \<^verbatim>\<open>ZeroDivisionError\<close>
  when \<open>skip = 0\<close>, and otherwise \<^verbatim>\<open>RuntimeError\<close> when the buffer size
  \<^verbatim>\<open>num_samples * cycles\<close> is negative. A configuration whose buffers can be built is
  accepted whatever its epoch split, the sign of \<open>skip\<close> and the number of samples; and
  whenever a runner is returned it stores the configuration, and \<open>descent_epochs\<close> and
  \<open>num_samples\<close> are the values computed from the arguments, never clamped.
\<close>

theorem init_validates_nothing:
  "(skip c = 0 \<longrightarrow> init E mdl c w = Inl ZeroDivisionError)
   \<and> (skip c \<noteq> 0 \<and> sample_epochs c div skip c * cycles c < 0 \<longrightarrow> init E mdl c w = Inl RuntimeError)
   \<and> (skip c \<noteq> 0 \<and> 0 \<le> sample_epochs c div skip c * cycles c
        \<and> fits_memory E (nat (sample_epochs c div skip c * cycles c))
        \<and> (\<forall>p \<in> set mdl.
              fits_memory E (nat (sample_epochs c div skip c * cycles c) * length (p_data p)))
      \<longrightarrow> (\<exists>r. init E mdl c w = Inr r))
   \<and> (\<forall>r. init E mdl c w = Inr r \<longrightarrow>
         cfg r = c
         \<and> descent_epochs r = epochs_per_cycle c - warmup_epochs c - sample_epochs c
         \<and> num_samples r = sample_epochs c div skip c)"
proof (intro conjI impI allI)
  let ?n = "sample_epochs c div skip c * cycles c"
  show "init E mdl c w = Inl ZeroDivisionError" if "skip c = 0"
    using that by (simp add: init_def)
  show "init E mdl c w = Inl RuntimeError" if "skip c \<noteq> 0 \<and> ?n < 0"
  proof (cases "for_each mdl (new_buffer E ?n) Map.empty")
    case (Inl e)
    with new_buffers_Inl [OF Inl] that show ?thesis
      by (simp add: init_def Let_def)
  next
    case (Inr bufs)
    with that show ?thesis
      by (simp add: init_def Let_def zeros_def)
  qed
  show "\<exists>r. init E mdl c w = Inr r"
    if h: "skip c \<noteq> 0 \<and> 0 \<le> ?n \<and> fits_memory E (nat ?n)
        \<and> (\<forall>p \<in> set mdl. fits_memory E (nat ?n * length (p_data p)))"
  proof -
    from h new_buffers_isl [of mdl E ?n Map.empty]
    have "\<not> isl (for_each mdl (new_buffer E ?n) Map.empty)" by auto
    then obtain bufs where "for_each mdl (new_buffer E ?n) Map.empty = Inr bufs"
      by (cases "for_each mdl (new_buffer E ?n) Map.empty") auto
    with h show ?thesis
      by (simp add: init_def Let_def zeros_def)
  qed
  show "cfg r = c" "descent_epochs r = epochs_per_cycle c - warmup_epochs c - sample_epochs c"
    "num_samples r = sample_epochs c div skip c" if "init E mdl c w = Inr r" for r
    using init_Inr_fields [OF that] by simp_all
qed

theorem init_validates_nothing_witness:
  "skip (conf 3 3 5 0 1 :: (int, unit) config) = 0
   \<and> init (toy linear_schedule) one_tensor (conf 3 3 5 0 1) None = Inl ZeroDivisionError
   \<and> sample_epochs (conf 3 3 5 1 (- 1) :: (int, unit) config) div skip (conf 3 3 5 1 (- 1) :: (int, unit) config)
        * cycles (conf 3 3 5 1 (- 1) :: (int, unit) config) < 0
   \<and> init (toy linear_schedule) one_tensor (conf 3 3 5 1 (- 1)) None = Inl RuntimeError
   \<and> (\<exists>r. init (toy linear_schedule) one_tensor (conf 3 3 5 1 1) None = Inr r
          \<and> descent_epochs r = - 5 \<and> num_samples r = 5)"
proof -
  let ?E = "toy linear_schedule"
  let ?z = "conf 3 3 5 0 1 :: (int, unit) config"
  let ?n = "conf 3 3 5 1 (- 1) :: (int, unit) config"
  let ?c = "conf 3 3 5 1 1 :: (int, unit) config"
  from init_validates_nothing [of ?z ?E one_tensor None]
  have z: "init ?E one_tensor ?z None = Inl ZeroDivisionError"
    by (simp add: conf_def)
  from init_validates_nothing [of ?n ?E one_tensor None]
  have n: "init ?E one_tensor ?n None = Inl RuntimeError"
    by (simp add: conf_def)
  note t = init_validates_nothing [of ?c ?E one_tensor None]
  have "skip ?c \<noteq> 0 \<and> 0 \<le> sample_epochs ?c div skip ?c * cycles ?c
        \<and> fits_memory ?E (nat (sample_epochs ?c div skip ?c * cycles ?c))
        \<and> (\<forall>p \<in> set one_tensor.
              fits_memory ?E (nat (sample_epochs ?c div skip ?c * cycles ?c) * length (p_data p)))"
    by (simp add: conf_def toy_def one_tensor_def)
  with t obtain r where r: "init ?E one_tensor ?c None = Inr r"
    by blast
  with t have "descent_epochs r = - 5 \<and> num_samples r = 5"
    by (simp add: conf_def)
  with r z n show ?thesis
    by (auto simp: conf_def)
qed

text \<open>
  Claim C2 as stated fails: construction succeeds with
  \<^verbatim>\<open>epochs_per_cycle < warmup_epochs + sample_epochs\<close>, with a negative \<^verbatim>\<open>skip\<close>, and with
  \<^verbatim>\<open>num_samples = 0\<close>.
\<close>

theorem init_accepts_invalid_configuration:
  "epochs_per_cycle (conf 3 3 5 1 1 :: (int, unit) config)
     < warmup_epochs (conf 3 3 5 1 1 :: (int, unit) config) + sample_epochs (conf 3 3 5 1 1 :: (int, unit) config)
   \<and> \<not> isl (init (toy linear_schedule) one_tensor (conf 3 3 5 1 1) None)
   \<and> skip (conf 10 3 0 (- 1) 1 :: (int, unit) config) \<le> 0
   \<and> \<not> isl (init (toy linear_schedule) one_tensor (conf 10 3 0 (- 1) 1) None)
   \<and> sample_epochs (conf 10 3 1 2 1 :: (int, unit) config) div skip (conf 10 3 1 2 1 :: (int, unit) config) = 0
   \<and> \<not> isl (init (toy linear_schedule) one_tensor (conf 10 3 1 2 1) None)"
  by (simp add: init_def new_buffer_def zeros_def conf_def one_tensor_def toy_def Let_def)

section \<open>Metric series\<close>

lemma series_add_scalar:
  "series (add_scalar n v i r) m = (if m = n then series r n @ [v] else series r m)"
  by (simp add: series_def add_scalar_def split: option.splits)

lemma add_scalar_frame:
  "\<exists>M W. add_scalar n v i r = r\<lparr>metrics := M, summary_writer := W\<rparr>"
  unfolding add_scalar_def by blast

lemma log_param_metrics_Nil [simp]: "log_param_metrics E i st [] r = r"
  by (simp add: log_param_metrics_def)

lemma log_param_metrics_Cons [simp]:
  "log_param_metrics E i st ((k, n) # kns) r =
     log_param_metrics E i st kns
       (add_scalar (''est_config_temp/'' @ n) (est_config_temp E st k) i
         (add_scalar (''est_temperature/'' @ n) (est_temperature E st k) i
           (add_scalar (''preconditioner/'' @ n) (preconditioner E st k) i r)))"
  by (simp add: log_param_metrics_def)

lemma log_param_metrics_frame:
  "\<exists>M W. log_param_metrics E i st kns r = r\<lparr>metrics := M, summary_writer := W\<rparr>"
proof (induction kns arbitrary: r)
  case Nil
  have "r = r\<lparr>metrics := metrics r, summary_writer := summary_writer r\<rparr>" by simp
  then show ?case by (metis log_param_metrics_Nil)
next
  case (Cons a kns)
  obtain k n where a: "a = (k, n)" by (cases a)
  let ?r1 = "add_scalar (''est_config_temp/'' @ n) (est_config_temp E st k) i
         (add_scalar (''est_temperature/'' @ n) (est_temperature E st k) i
           (add_scalar (''preconditioner/'' @ n) (preconditioner E st k) i r))"
  obtain M1 W1 where 1: "?r1 = r\<lparr>metrics := M1, summary_writer := W1\<rparr>"
    unfolding add_scalar_def by simp
  obtain M W where "log_param_metrics E i st kns ?r1 = ?r1\<lparr>metrics := M, summary_writer := W\<rparr>"
    using Cons.IH by blast
  then have "log_param_metrics E i st (a # kns) r = r\<lparr>metrics := M, summary_writer := W\<rparr>"
    unfolding a log_param_metrics_Cons 1 by simp
  then show ?case by blast
qed

lemma series_three_scalars:
  "series (add_scalar (''est_config_temp/'' @ n) (est_config_temp E st k) i
         (add_scalar (''est_temperature/'' @ n) (est_temperature E st k) i
           (add_scalar (''preconditioner/'' @ n) (preconditioner E st k) i r))) name
     = series r name @ param_entries E st name (k, n)"
  by (auto simp: series_add_scalar param_entries_def)

lemma series_log_param_metrics:
  "series (log_param_metrics E i st kns r) name
     = series r name @ concat (map (param_entries E st name) kns)"
proof (induction kns arbitrary: r)
  case Nil
  then show ?case by simp
next
  case (Cons a kns)
  obtain k n where a: "a = (k, n)" by (cases a)
  show ?case
    unfolding a log_param_metrics_Cons Cons.IH series_three_scalars
    by simp
qed

lemma concat_single_hit:
  "distinct (map snd kns) \<Longrightarrow> (k, n) \<in> set kns \<Longrightarrow>
     concat (map (\<lambda>kn. if snd kn = n then [f (fst kn)] else []) kns) = [f k]"
proof (induction kns)
  case Nil
  then show ?case by simp
next
  case (Cons a kns)
  show ?case
  proof (cases "a = (k, n)")
    case True
    with Cons.prems have "n \<notin> snd ` set kns" by auto
    then have "concat (map (\<lambda>kn. if snd kn = n then [f (fst kn)] else []) kns) = []"
      by (induction kns) auto
    with True show ?thesis by simp
  next
    case False
    with Cons.prems have in_rest: "(k, n) \<in> set kns" and d: "distinct (map snd kns)"
      and "snd a \<notin> snd ` set kns" by auto
    then have "snd a \<noteq> n" by (metis image_eqI snd_conv)
    with Cons.IH [OF d in_rest] show ?thesis by simp
  qed
qed

lemma concat_no_hit:
  "(\<And>kn. kn \<in> set kns \<Longrightarrow> g kn = []) \<Longrightarrow> concat (map g kns) = []"
  by (induction kns) auto

lemma param_entries_preconditioner:
  "param_entries E st (''preconditioner/'' @ n) = (\<lambda>kn. if snd kn = n then [preconditioner E st (fst kn)] else [])"
  by (rule ext) (simp add: param_entries_def)

lemma param_entries_est_temperature:
  "param_entries E st (''est_temperature/'' @ n) = (\<lambda>kn. if snd kn = n then [est_temperature E st (fst kn)] else [])"
  by (rule ext) (simp add: param_entries_def)

lemma param_entries_est_config_temp:
  "param_entries E st (''est_config_temp/'' @ n) = (\<lambda>kn. if snd kn = n then [est_config_temp E st (fst kn)] else [])"
  by (rule ext) (simp add: param_entries_def)

lemma param_entries_other:
  "name \<in> {''lr'', ''loss'', ''log_prob_accept''} \<Longrightarrow> param_entries E st name kn = []"
  by (auto simp: param_entries_def)

section \<open>One step\<close>

lemma length_set_lrs [simp]: "length (set_lrs gs ls) = length gs"
  by (induction gs ls rule: set_lrs.induct) auto

lemma temperature_set_lrs [simp]: "map g_temperature (set_lrs gs ls) = map g_temperature gs"
  by (induction gs ls rule: set_lrs.induct) auto

lemma set_lrs_eq_Nil [simp]: "set_lrs gs ls = [] \<longleftrightarrow> gs = []"
  by (induction gs ls rule: set_lrs.induct) auto

lemma scheduler_step_Inr:
  assumes "scheduler_step r = Inr r'"
  shows "\<exists>s opt. scheduler r = Some s \<and> optimizer r = Some opt
           \<and> r' = r\<lparr> scheduler := Some (s\<lparr>last_epoch := last_epoch s + 1\<rparr>),
                      optimizer := Some (opt\<lparr>param_groups :=
                         set_lrs (param_groups opt)
                           (map (\<lambda>b. b * lr_lambda s (last_epoch s + 1)) (base_lrs s))\<rparr>) \<rparr>"
  using assms by (auto simp: scheduler_step_def Let_def split: option.splits)

lemma add_scalar_frame_step:
  assumes "r1 = r\<lparr>metrics := M1, summary_writer := W1\<rparr>"
  shows "\<exists>M W. add_scalar n v i r1 = r\<lparr>metrics := M, summary_writer := W\<rparr>"
proof -
  have "add_scalar n v i r1 = r\<lparr>metrics := metrics (add_scalar n v i r1),
          summary_writer := summary_writer (add_scalar n v i r1)\<rparr>"
    by (simp add: add_scalar_def assms)
  then show ?thesis by blast
qed

lemma log_step_Inr:
  assumes "log_step E i loss r = Inr (l, r')"
  shows "l = loss \<and> (\<exists>M W. r' = r\<lparr>metrics := M, summary_writer := W, prev_loss := Some loss\<rparr>)"
proof -
  from assms obtain opt g0 gs where opt: "optimizer r = Some opt" "param_groups opt = g0 # gs"
    by (auto simp: log_step_def split: option.splits list.splits)
  let ?r3 = "log_param_metrics E i (opt_state opt) (zip [0..<length (model r)] (param_names r)) r"
  let ?r5 = "add_scalar ''loss'' loss i (add_scalar ''lr'' (g_lr g0) i ?r3)"
  obtain M3 W3 where r3: "?r3 = r\<lparr>metrics := M3, summary_writer := W3\<rparr>"
    using log_param_metrics_frame [of E i "opt_state opt" "zip [0..<length (model r)] (param_names r)" r]
    by blast
  obtain M4 W4 where r4: "add_scalar ''lr'' (g_lr g0) i ?r3 = r\<lparr>metrics := M4, summary_writer := W4\<rparr>"
    using add_scalar_frame_step [OF r3] by blast
  have r5: "\<exists>M W. ?r5 = r\<lparr>metrics := M, summary_writer := W\<rparr>"
    using add_scalar_frame_step [OF r4] by blast
  then obtain M5 W5 where r5: "?r5 = r\<lparr>metrics := M5, summary_writer := W5\<rparr>" by blast
  have r6: "\<exists>M W. add_scalar ''log_prob_accept'' v (i - 1) ?r5 = r\<lparr>metrics := M, summary_writer := W\<rparr>" for v
    using add_scalar_frame_step [OF r5] by blast
  show ?thesis
  proof (cases "i > 0")
    case True
    with assms opt obtain pl where "prev_loss ?r5 = Some pl"
      and res: "l = loss" "r' = (add_scalar ''log_prob_accept'' (pl - loss) (i - 1) ?r5)\<lparr>prev_loss := Some loss\<rparr>"
      by (auto simp: log_step_def Let_def split: option.splits)
    from r6 [of "pl - loss"] obtain M W where
      "add_scalar ''log_prob_accept'' (pl - loss) (i - 1) ?r5 = r\<lparr>metrics := M, summary_writer := W\<rparr>"
      by blast
    with res show ?thesis by auto
  next
    case False
    with assms opt have "l = loss" "r' = ?r5\<lparr>prev_loss := Some loss\<rparr>"
      by (auto simp: log_step_def Let_def)
    with r5 show ?thesis by auto
  qed
qed

lemma step_Inr:
  assumes "step E i xy d r = Inr (l, r')"
  shows "\<exists>opt r1 r2 M W. optimizer r = Some opt \<and> param_groups opt \<noteq> []
     \<and> l = potential_avg E (model r) xy (temperature (cfg r)) (data_mult (cfg r))
     \<and> r1 = r\<lparr>model := snd (optimizer_step E opt (grads_at_optimizer_step E xy r)),
                optimizer := Some (fst (optimizer_step E opt (grads_at_optimizer_step E xy r)))\<rparr>
     \<and> (if d then scheduler_step r1 = Inr r2 else r2 = r1)
     \<and> log_step E i l r2 = Inr (l, r')
     \<and> r' = r2\<lparr>metrics := M, summary_writer := W, prev_loss := Some l\<rparr>"
    (is "\<exists>opt r1 r2 M W. ?P opt r1 r2 M W")
proof -
  from assms obtain opt g0 gs where opt: "optimizer r = Some opt" "param_groups opt = g0 # gs"
    by (auto simp: step_def split: option.splits list.splits)
  let ?l = "potential_avg E (model r) xy (temperature (cfg r)) (data_mult (cfg r))"
  let ?os = "optimizer_step E opt (grads_at_optimizer_step E xy r)"
  let ?r1 = "r\<lparr>model := snd ?os, optimizer := Some (fst ?os)\<rparr>"
  from assms opt obtain r2 where r2: "(if d then scheduler_step ?r1 else Inr ?r1) = Inr r2"
    and ls: "log_step E i ?l r2 = Inr (l, r')"
    by (auto simp: step_def Let_def split: sum.splits)
  from log_step_Inr [OF ls] obtain M W where
    "l = ?l" "r' = r2\<lparr>metrics := M, summary_writer := W, prev_loss := Some ?l\<rparr>" by blast
  moreover from r2 have "if d then scheduler_step ?r1 = Inr r2 else r2 = ?r1"
    by (auto split: if_splits)
  ultimately have "?P opt ?r1 r2 M W" using opt ls by simp
  then show ?thesis by blast
qed

lemma step_preserves:
  assumes "step E i xy d r = Inr (l, r')"
  shows "cfg r' = cfg r" "descent_epochs r' = descent_epochs r" "num_samples r' = num_samples r"
    "samples r' = samples r" "param_names r' = param_names r" "prev_loss r' = Some l"
    "group_temperatures r' = group_temperatures r"
    "l = potential_avg E (model r) xy (temperature (cfg r)) (data_mult (cfg r))"
    "model r' = snd (optimizer_step E (the (optimizer r)) (grads_at_optimizer_step E xy r))"
proof -
  from step_Inr [OF assms] obtain opt r1 r2 M W where
    opt: "optimizer r = Some opt" and
    l: "l = potential_avg E (model r) xy (temperature (cfg r)) (data_mult (cfg r))" and
    r1: "r1 = r\<lparr>model := snd (optimizer_step E opt (grads_at_optimizer_step E xy r)),
                optimizer := Some (fst (optimizer_step E opt (grads_at_optimizer_step E xy r)))\<rparr>" and
    r2: "if d then scheduler_step r1 = Inr r2 else r2 = r1" and
    r': "r' = r2\<lparr>metrics := M, summary_writer := W, prev_loss := Some l\<rparr>"
    by blast
  have a: "cfg r2 = cfg r \<and> descent_epochs r2 = descent_epochs r \<and> num_samples r2 = num_samples r
     \<and> samples r2 = samples r \<and> param_names r2 = param_names r \<and> model r2 = model r1
     \<and> group_temperatures r2 = group_temperatures r"
  proof (cases d)
    case True
    with r2 have "scheduler_step r1 = Inr r2" by simp
    from scheduler_step_Inr [OF this] show ?thesis
      by (auto simp: r1 group_temperatures_def optimizer_step_def opt)
  next
    case False
    with r2 show ?thesis
      by (auto simp: r1 group_temperatures_def optimizer_step_def opt)
  qed
  show "cfg r' = cfg r" "descent_epochs r' = descent_epochs r" "num_samples r' = num_samples r"
    "samples r' = samples r" "param_names r' = param_names r" "prev_loss r' = Some l"
    "group_temperatures r' = group_temperatures r"
    "l = potential_avg E (model r) xy (temperature (cfg r)) (data_mult (cfg r))"
    "model r' = snd (optimizer_step E (the (optimizer r)) (grads_at_optimizer_step E xy r))"
    using a l by (simp_all add: r' r1 opt group_temperatures_def)
qed

section \<open>Loops and gradient clamping\<close>

lemma for_each_append:
  "for_each (xs @ ys) body s =
     (case for_each xs body s of Inl e \<Rightarrow> Inl e | Inr s' \<Rightarrow> for_each ys body s')"
  by (induction xs arbitrary: s) (auto split: sum.splits)

lemma for_each_invariant:
  assumes "\<And>x s s'. P s \<Longrightarrow> body x s = Inr s' \<Longrightarrow> P s'"
    and "P s" and "for_each xs body s = Inr s'"
  shows "P s'"
  using assms(2,3)
proof (induction xs arbitrary: s)
  case Nil
  then show ?case by simp
next
  case (Cons x xs)
  from Cons.prems(2) obtain s1 where 1: "body x s = Inr s1" and 2: "for_each xs body s1 = Inr s'"
    by (auto split: sum.splits)
  from assms(1) [OF Cons.prems(1) 1] have "P s1" .
  from Cons.IH [OF this 2] show ?case .
qed

lemma step_batch_Inr:
  assumes "step_batch E xy sr = Inr sr'"
  shows "\<exists>l. step E (fst sr) xy True (snd sr) = Inr (l, snd sr') \<and> fst sr' = fst sr + 1"
  using assms by (auto simp: step_batch_def split: sum.splits)

lemma step_optimizer:
  assumes "step E i xy d r = Inr (l, r')"
  shows "\<exists>opt. optimizer r' = Some opt"
proof -
  from step_Inr [OF assms] obtain opt r1 r2 M W where
    r1: "r1 = r\<lparr>model := snd (optimizer_step E opt (grads_at_optimizer_step E xy r)),
                optimizer := Some (fst (optimizer_step E opt (grads_at_optimizer_step E xy r)))\<rparr>" and
    r2: "if d then scheduler_step r1 = Inr r2 else r2 = r1" and
    r': "r' = r2\<lparr>metrics := M, summary_writer := W, prev_loss := Some l\<rparr>"
    by blast
  have "\<exists>opt. optimizer r2 = Some opt"
  proof (cases d)
    case True
    with r2 have "scheduler_step r1 = Inr r2" by simp
    from scheduler_step_Inr [OF this] show ?thesis by auto
  next
    case False
    with r2 r1 show ?thesis by simp
  qed
  then show ?thesis by (simp add: r')
qed

lemma batches_preserve:
  assumes "for_each bs (step_batch E) (i, r1) = Inr (j, r2)"
  shows "cfg r2 = cfg r1 \<and> descent_epochs r2 = descent_epochs r1
     \<and> group_temperatures r2 = group_temperatures r1
     \<and> (optimizer r1 \<noteq> None \<longrightarrow> optimizer r2 \<noteq> None)"
proof -
  let ?P = "\<lambda>sr. cfg (snd sr) = cfg r1 \<and> descent_epochs (snd sr) = descent_epochs r1
     \<and> group_temperatures (snd sr) = group_temperatures r1
     \<and> (optimizer r1 \<noteq> None \<longrightarrow> optimizer (snd sr) \<noteq> None)"
  have "?P (j, r2)"
  proof (rule for_each_invariant [where P = ?P, OF _ _ assms])
    show "?P (i, r1)" by simp
  next
    fix x s s'
    assume P: "?P s" and b: "step_batch E x s = Inr s'"
    from step_batch_Inr [OF b] obtain l where st: "step E (fst s) x True (snd s) = Inr (l, snd s')"
      by blast
    from step_preserves(1,2,7) [OF st] step_optimizer [OF st] P show "?P s'" by auto
  qed
  then show ?thesis by simp
qed

lemma set_phase_temperature_Inr:
  assumes "set_phase_temperature epoch r = Inr r1"
  shows "\<exists>opt. optimizer r = Some opt
     \<and> r1 = r\<lparr>optimizer := Some (opt\<lparr>param_groups :=
                 map (\<lambda>g. g\<lparr>g_temperature :=
                              (if epoch < descent_epochs r then 0 else temperature (cfg r))\<rparr>)
                   (param_groups opt)\<rparr>)\<rparr>"
  using assms by (auto simp: set_phase_temperature_def split: option.splits)

lemma clamp_within: "0 \<le> gm \<Longrightarrow> g \<noteq> NaN \<Longrightarrow> in_range gm (clamp (- gm) gm g)"
  by (cases g) (auto simp: in_range_def)

lemma clamp_NaN [simp]: "clamp lo hi g = NaN \<longleftrightarrow> g = NaN"
  by (cases g) auto

lemma length_backward_all [simp]: "length (backward_all E xy r) = length (model r)"
  by (simp add: backward_all_def)

lemma length_grads_at_optimizer_step [simp]:
  "length (grads_at_optimizer_step E xy r) = length (model r)"
  by (simp add: grads_at_optimizer_step_def clamp_grads_def)

lemma names_backward_all: "map p_name (backward_all E xy r) = map p_name (model r)"
proof -
  have "map p_name (backward_all E xy r)
          = map (\<lambda>kp. p_name (snd kp)) (zip [0..<length (model r)] (model r))"
    by (simp add: backward_all_def case_prod_beta)
  also have "\<dots> = map p_name (map snd (zip [0..<length (model r)] (model r)))"
    unfolding map_map comp_def ..
  also have "map snd (zip [0..<length (model r)] (model r)) = model r"
    by (rule map_snd_zip) simp
  finally show ?thesis .
qed

lemma names_grads_at_optimizer_step:
  "map p_name (grads_at_optimizer_step E xy r) = map p_name (model r)"
proof -
  have "map p_name (clamp_grads gm ps) = map p_name ps" for gm :: 'a and ps
    by (simp add: clamp_grads_def)
  then show ?thesis
    by (simp add: grads_at_optimizer_step_def names_backward_all)
qed

lemma grads_at_optimizer_step_nth:
  assumes "k < length (model r)"
  shows "p_grad (grads_at_optimizer_step E xy r ! k)
           = map (clamp (- grad_max (cfg r)) (grad_max (cfg r)))
               (backward E (model r) xy (temperature (cfg r)) (data_mult (cfg r)) k)"
  using assms by (simp add: grads_at_optimizer_step_def clamp_grads_def backward_all_def)

text \<open>
  Claim C8, amended. The tensors handed to \<^verbatim>\<open>optimizer.step()\<close> are the tracked tensors of
  the model, each with the raw gradient of the potential clamped element by element with
  \<^verbatim>\<open>min=-grad_max, max=grad_max\<close>. When \<open>grad_max\<close> is not negative, every element that
  is not \<^verbatim>\<open>nan\<close> lies in \<open>[- grad_max, grad_max]\<close>; an element is \<^verbatim>\<open>nan\<close> after the clamp
  exactly when it was before. The new tensors of any successful \<^verbatim>\<open>step\<close> are the
  sampler's update of exactly these.
\<close>

theorem gradients_clamped_at_optimizer_step:
  fixes r :: "('a::linordered_idom, 'b, 'o) runner"
  shows "map p_name (grads_at_optimizer_step E xy r) = map p_name (model r)
     \<and> (\<forall>k < length (model r).
           p_grad (grads_at_optimizer_step E xy r ! k)
             = map (clamp (- grad_max (cfg r)) (grad_max (cfg r)))
                 (backward E (model r) xy (temperature (cfg r)) (data_mult (cfg r)) k))
     \<and> (0 \<le> grad_max (cfg r) \<longrightarrow>
          (\<forall>p \<in> set (grads_at_optimizer_step E xy r). \<forall>g \<in> set (p_grad p).
              g \<noteq> NaN \<longrightarrow> in_range (grad_max (cfg r)) g))
     \<and> (\<forall>k < length (model r).
           map (\<lambda>g. g = NaN) (p_grad (grads_at_optimizer_step E xy r ! k))
             = map (\<lambda>g. g = NaN)
                 (backward E (model r) xy (temperature (cfg r)) (data_mult (cfg r)) k))
     \<and> (\<forall>i d l r' opt. step E i xy d r = Inr (l, r') \<longrightarrow> optimizer r = Some opt \<longrightarrow>
           model r' = snd (optimizer_step E opt (grads_at_optimizer_step E xy r)))"
proof (intro conjI)
  show "map p_name (grads_at_optimizer_step E xy r) = map p_name (model r)"
    by (rule names_grads_at_optimizer_step)
  show "\<forall>k < length (model r).
           p_grad (grads_at_optimizer_step E xy r ! k)
             = map (clamp (- grad_max (cfg r)) (grad_max (cfg r)))
                 (backward E (model r) xy (temperature (cfg r)) (data_mult (cfg r)) k)"
    by (simp add: grads_at_optimizer_step_nth)
  show "0 \<le> grad_max (cfg r) \<longrightarrow>
          (\<forall>p \<in> set (grads_at_optimizer_step E xy r). \<forall>g \<in> set (p_grad p).
              g \<noteq> NaN \<longrightarrow> in_range (grad_max (cfg r)) g)"
    by (auto simp: grads_at_optimizer_step_def clamp_grads_def clamp_within)
  show "\<forall>k < length (model r).
           map (\<lambda>g. g = NaN) (p_grad (grads_at_optimizer_step E xy r ! k))
             = map (\<lambda>g. g = NaN)
                 (backward E (model r) xy (temperature (cfg r)) (data_mult (cfg r)) k)"
    by (simp add: grads_at_optimizer_step_nth comp_def)
  show "\<forall>i d l r' opt. step E i xy d r = Inr (l, r') \<longrightarrow> optimizer r = Some opt \<longrightarrow>
           model r' = snd (optimizer_step E opt (grads_at_optimizer_step E xy r))"
  proof (intro allI impI)
    fix i d l r' opt
    assume "step E i xy d r = Inr (l, r')" and "optimizer r = Some opt"
    with step_preserves(9) [of E i xy d r l r']
    show "model r' = snd (optimizer_step E opt (grads_at_optimizer_step E xy r))"
      by simp
  qed
qed

section \<open>What a step logs\<close>

lemma series_frame [simp]:
  "series (r\<lparr>prev_loss := x\<rparr>) = series r"
  "series (r\<lparr>model := m\<rparr>) = series r"
  "series (r\<lparr>optimizer := opt\<rparr>) = series r"
  "series (r\<lparr>scheduler := s\<rparr>) = series r"
  by (simp_all add: series_def fun_eq_iff)

lemma add_scalar_fields [simp]:
  "prev_loss (add_scalar n v i r) = prev_loss r"
  "optimizer (add_scalar n v i r) = optimizer r"
  "scheduler (add_scalar n v i r) = scheduler r"
  "model (add_scalar n v i r) = model r"
  "cfg (add_scalar n v i r) = cfg r"
  by (simp_all add: add_scalar_def)

lemma log_param_metrics_fields [simp]:
  "prev_loss (log_param_metrics E i st kns r) = prev_loss r"
  "optimizer (log_param_metrics E i st kns r) = optimizer r"
  "scheduler (log_param_metrics E i st kns r) = scheduler r"
  "model (log_param_metrics E i st kns r) = model r"
  "cfg (log_param_metrics E i st kns r) = cfg r"
proof -
  obtain M W where "log_param_metrics E i st kns r = r\<lparr>metrics := M, summary_writer := W\<rparr>"
    using log_param_metrics_frame [of E i st kns r] by blast
  then show "prev_loss (log_param_metrics E i st kns r) = prev_loss r"
    "optimizer (log_param_metrics E i st kns r) = optimizer r"
    "scheduler (log_param_metrics E i st kns r) = scheduler r"
    "model (log_param_metrics E i st kns r) = model r"
    "cfg (log_param_metrics E i st kns r) = cfg r"
    by simp_all
qed

lemma log_step_series:
  fixes r :: "('a::linordered_idom, 'b, 'o) runner"
  assumes o: "optimizer r = Some opt" "param_groups opt = g0 # gs"
    and p: "0 < i \<longrightarrow> prev_loss r = Some pl"
  shows "\<exists>r'. log_step E i loss r = Inr (loss, r') \<and> prev_loss r' = Some loss
     \<and> optimizer r' = optimizer r
     \<and> (\<forall>name. series r' name = series r name
           @ logged E i (opt_state opt) (zip [0..<length (model r)] (param_names r)) (g_lr g0) loss pl name)"
proof -
  let ?kns = "zip [0..<length (model r)] (param_names r)"
  let ?r3 = "log_param_metrics E i (opt_state opt) ?kns r"
  let ?r5 = "add_scalar ''loss'' loss i (add_scalar ''lr'' (g_lr g0) i ?r3)"
  show ?thesis
  proof (cases "0 < i")
    case True
    with p have pl: "prev_loss ?r5 = Some pl" by simp
    let ?r' = "(add_scalar ''log_prob_accept'' (pl - loss) (i - 1) ?r5)\<lparr>prev_loss := Some loss\<rparr>"
    have "log_step E i loss r = Inr (loss, ?r')"
      using True pl o by (simp add: log_step_def Let_def)
    moreover have "series ?r' name = series r name @ logged E i (opt_state opt) ?kns (g_lr g0) loss pl name" for name
      using True by (simp add: series_add_scalar series_log_param_metrics logged_def)
    moreover have "prev_loss ?r' = Some loss" "optimizer ?r' = optimizer r" by simp_all
    ultimately show ?thesis by blast
  next
    case False
    let ?r' = "?r5\<lparr>prev_loss := Some loss\<rparr>"
    have "log_step E i loss r = Inr (loss, ?r')"
      using False o by (simp add: log_step_def Let_def)
    moreover have "series ?r' name = series r name @ logged E i (opt_state opt) ?kns (g_lr g0) loss pl name" for name
      using False by (simp add: series_add_scalar series_log_param_metrics logged_def)
    moreover have "prev_loss ?r' = Some loss" "optimizer ?r' = optimizer r" by simp_all
    ultimately show ?thesis by blast
  qed
qed

lemma step_series:
  fixes r :: "('a::linordered_idom, 'b, 'o) runner"
  assumes o: "optimizer r = Some opt" "param_groups opt \<noteq> []"
    and s: "d \<longrightarrow> scheduler r \<noteq> None"
    and p: "0 < i \<longrightarrow> prev_loss r = Some pl"
  shows "\<exists>r' opt'. step E i xy d r
           = Inr (potential_avg E (model r) xy (temperature (cfg r)) (data_mult (cfg r)), r')
     \<and> prev_loss r' = Some (potential_avg E (model r) xy (temperature (cfg r)) (data_mult (cfg r)))
     \<and> optimizer r' = Some opt' \<and> param_groups opt' \<noteq> []
     \<and> (\<forall>name. series r' name = series r name
           @ logged E i (sgld_state E (param_groups opt) (opt_state opt) (grads_at_optimizer_step E xy r))
               (zip [0..<length (model r)] (param_names r)) (g_lr (hd (param_groups opt')))
               (potential_avg E (model r) xy (temperature (cfg r)) (data_mult (cfg r))) pl name)"
proof -
  let ?l = "potential_avg E (model r) xy (temperature (cfg r)) (data_mult (cfg r))"
  let ?ps = "grads_at_optimizer_step E xy r"
  let ?st = "sgld_state E (param_groups opt) (opt_state opt) ?ps"
  let ?os = "optimizer_step E opt ?ps"
  let ?r1 = "r\<lparr>model := snd ?os, optimizer := Some (fst ?os)\<rparr>"
  obtain g0 gs where gs: "param_groups opt = g0 # gs"
    using o(2) by (cases "param_groups opt") auto
  have "\<exists>r2 opt2. (if d then scheduler_step ?r1 else Inr ?r1) = Inr r2
      \<and> optimizer r2 = Some opt2 \<and> param_groups opt2 \<noteq> [] \<and> opt_state opt2 = ?st
      \<and> model r2 = snd ?os \<and> param_names r2 = param_names r \<and> prev_loss r2 = prev_loss r
      \<and> series r2 = series r"
  proof (cases d)
    case True
    with s obtain sc where sc: "scheduler r = Some sc" by auto
    show ?thesis
      using True sc gs by (simp add: scheduler_step_def Let_def optimizer_step_def)
  next
    case False
    then show ?thesis using gs by (simp add: optimizer_step_def)
  qed
  then obtain r2 opt2 where r2: "(if d then scheduler_step ?r1 else Inr ?r1) = Inr r2"
    and o2: "optimizer r2 = Some opt2" "param_groups opt2 \<noteq> []" "opt_state opt2 = ?st"
    and f2: "model r2 = snd ?os" "param_names r2 = param_names r" "prev_loss r2 = prev_loss r"
      "series r2 = series r"
    by blast
  obtain h0 hs where hs: "param_groups opt2 = h0 # hs"
    using o2(2) by (cases "param_groups opt2") auto
  have len: "length (model r2) = length (model r)"
    by (simp add: f2 optimizer_step_def)
  from p f2 have p2: "0 < i \<longrightarrow> prev_loss r2 = Some pl" by simp
  from log_step_series [OF o2(1) hs p2, of E ?l] obtain r' where
    ls: "log_step E i ?l r2 = Inr (?l, r')" and pr: "prev_loss r' = Some ?l"
    and op: "optimizer r' = optimizer r2"
    and se: "\<forall>name. series r' name = series r2 name
           @ logged E i (opt_state opt2) (zip [0..<length (model r2)] (param_names r2)) (g_lr h0) ?l pl name"
    by blast
  have "step E i xy d r = Inr (?l, r')"
    using o gs r2 ls by (simp add: step_def Let_def)
  moreover have "g_lr h0 = g_lr (hd (param_groups opt2))" by (simp add: hs)
  ultimately show ?thesis
    using pr op o2 se f2 len by auto
qed

lemma logged_lr: "logged E i st kns lr loss pl ''lr'' = [lr]"
proof -
  have "concat (map (param_entries E st ''lr'') kns) = []"
    by (rule concat_no_hit) (simp add: param_entries_other)
  then show ?thesis by (simp add: logged_def)
qed

lemma logged_loss: "logged E i st kns lr loss pl ''loss'' = [loss]"
proof -
  have "concat (map (param_entries E st ''loss'') kns) = []"
    by (rule concat_no_hit) (simp add: param_entries_other)
  then show ?thesis by (simp add: logged_def)
qed

lemma logged_log_prob_accept:
  "logged E i st kns lr loss pl ''log_prob_accept'' = (if 0 < i then [pl - loss] else [])"
proof -
  have "concat (map (param_entries E st ''log_prob_accept'') kns) = []"
    by (rule concat_no_hit) (simp add: param_entries_other)
  then show ?thesis by (simp add: logged_def)
qed

lemma logged_param:
  assumes "distinct (map snd kns)" and "(k, n) \<in> set kns"
  shows "logged E i st kns lr loss pl (''preconditioner/'' @ n) = [preconditioner E st k]"
    and "logged E i st kns lr loss pl (''est_temperature/'' @ n) = [est_temperature E st k]"
    and "logged E i st kns lr loss pl (''est_config_temp/'' @ n) = [est_config_temp E st k]"
proof -
  show "logged E i st kns lr loss pl (''preconditioner/'' @ n) = [preconditioner E st k]"
    unfolding logged_def param_entries_preconditioner
    using concat_single_hit [OF assms, of "preconditioner E st"] by simp
  show "logged E i st kns lr loss pl (''est_temperature/'' @ n) = [est_temperature E st k]"
    unfolding logged_def param_entries_est_temperature
    using concat_single_hit [OF assms, of "est_temperature E st"] by simp
  show "logged E i st kns lr loss pl (''est_config_temp/'' @ n) = [est_config_temp E st k]"
    unfolding logged_def param_entries_est_config_temp
    using concat_single_hit [OF assms, of "est_config_temp E st"] by simp
qed

text \<open>
  Claim C9. A call of \<^verbatim>\<open>step\<close> on a runner with its optimizer (and its scheduler
  when the rate decays), with distinct tensor names, and with a previous loss when
  \<open>i > 0\<close>, succeeds and appends exactly one value to \<^verbatim>\<open>lr\<close>, one to \<^verbatim>\<open>loss\<close>, one to
  each of the three series of every tracked tensor, and one to \<^verbatim>\<open>log_prob_accept\<close>, the
  previous loss minus the current one, when \<open>i > 0\<close> and nothing to it when \<open>i = 0\<close>.
  Every series keeps what it had as a prefix.
\<close>

theorem step_appends_metrics:
  fixes r :: "('a::linordered_idom, 'b, 'o) runner"
  assumes o: "optimizer r = Some opt" "param_groups opt \<noteq> []"
    and s: "d \<longrightarrow> scheduler r \<noteq> None"
    and p: "0 < i \<longrightarrow> prev_loss r = Some pl"
    and n: "distinct (param_names r)" "length (param_names r) = length (model r)"
  shows "\<exists>l r' opt' st'.
       step E i xy d r = Inr (l, r')
     \<and> l = potential_avg E (model r) xy (temperature (cfg r)) (data_mult (cfg r))
     \<and> st' = sgld_state E (param_groups opt) (opt_state opt) (grads_at_optimizer_step E xy r)
     \<and> optimizer r' = Some opt'
     \<and> prev_loss r' = Some l
     \<and> series r' ''lr'' = series r ''lr'' @ [g_lr (hd (param_groups opt'))]
     \<and> series r' ''loss'' = series r ''loss'' @ [l]
     \<and> (\<forall>k < length (param_names r).
           series r' (''preconditioner/'' @ param_names r ! k)
             = series r (''preconditioner/'' @ param_names r ! k) @ [preconditioner E st' k]
         \<and> series r' (''est_temperature/'' @ param_names r ! k)
             = series r (''est_temperature/'' @ param_names r ! k) @ [est_temperature E st' k]
         \<and> series r' (''est_config_temp/'' @ param_names r ! k)
             = series r (''est_config_temp/'' @ param_names r ! k) @ [est_config_temp E st' k])
     \<and> series r' ''log_prob_accept''
          = series r ''log_prob_accept'' @ (if 0 < i then [pl - l] else [])
     \<and> (\<forall>name. \<exists>vs. series r' name = series r name @ vs)"
proof -
  let ?l = "potential_avg E (model r) xy (temperature (cfg r)) (data_mult (cfg r))"
  let ?st = "sgld_state E (param_groups opt) (opt_state opt) (grads_at_optimizer_step E xy r)"
  let ?kns = "zip [0..<length (model r)] (param_names r)"
  from step_series [OF o s p, of E xy] obtain r' opt' where
    st: "step E i xy d r = Inr (?l, r')" and pr: "prev_loss r' = Some ?l"
    and op: "optimizer r' = Some opt'"
    and se: "\<And>name. series r' name = series r name
           @ logged E i ?st ?kns (g_lr (hd (param_groups opt'))) ?l pl name"
    by blast
  have d: "distinct (map snd ?kns)"
    using n by (simp add: map_snd_zip)
  have m: "(k, param_names r ! k) \<in> set ?kns" if "k < length (param_names r)" for k
    using that n(2) by (auto simp: in_set_zip intro!: exI [of _ k])
  have params: "series r' (''preconditioner/'' @ param_names r ! k)
             = series r (''preconditioner/'' @ param_names r ! k) @ [preconditioner E ?st k]
         \<and> series r' (''est_temperature/'' @ param_names r ! k)
             = series r (''est_temperature/'' @ param_names r ! k) @ [est_temperature E ?st k]
         \<and> series r' (''est_config_temp/'' @ param_names r ! k)
             = series r (''est_config_temp/'' @ param_names r ! k) @ [est_config_temp E ?st k]"
    if "k < length (param_names r)" for k
    unfolding se logged_param [OF d m [OF that]] by simp
  have lr: "series r' ''lr'' = series r ''lr'' @ [g_lr (hd (param_groups opt'))]"
    unfolding se logged_lr ..
  have lo: "series r' ''loss'' = series r ''loss'' @ [?l]"
    unfolding se logged_loss ..
  have la: "series r' ''log_prob_accept''
          = series r ''log_prob_accept'' @ (if 0 < i then [pl - ?l] else [])"
    unfolding se logged_log_prob_accept ..
  have ap: "\<forall>name. \<exists>vs. series r' name = series r name @ vs"
    using se by blast
  show ?thesis
    using st pr op lr lo la ap params by blast
qed

lemma log_step_loss_series:
  fixes r :: "('a::linordered_idom, 'b, 'o) runner"
  assumes "log_step E i loss r = Inr (l, r')"
  shows "series r' ''loss'' = series r ''loss'' @ [loss]"
proof -
  from assms obtain opt g0 gs where opt: "optimizer r = Some opt" "param_groups opt = g0 # gs"
    by (auto simp: log_step_def split: option.splits list.splits)
  have "\<exists>pl. 0 < i \<longrightarrow> prev_loss r = Some pl"
    using assms opt by (cases "prev_loss r") (auto simp: log_step_def Let_def)
  then obtain pl where "0 < i \<longrightarrow> prev_loss r = Some pl" by blast
  from log_step_series [OF opt this, of E loss] assms
  have "series r' ''loss'' = series r ''loss''
      @ logged E i (opt_state opt) (zip [0..<length (model r)] (param_names r)) (g_lr g0) loss pl ''loss''"
    by auto
  then show ?thesis by (simp add: logged_loss)
qed

lemma step_loss_series:
  fixes r :: "('a::linordered_idom, 'b, 'o) runner"
  assumes s: "step E i xy d r = Inr (l, r')"
  shows "series r' ''loss'' = series r ''loss'' @ [l]"
proof -
  from step_Inr [OF s] obtain opt r1 r2 where
    r1: "r1 = r\<lparr>model := snd (optimizer_step E opt (grads_at_optimizer_step E xy r)),
                optimizer := Some (fst (optimizer_step E opt (grads_at_optimizer_step E xy r)))\<rparr>"
    and r2: "if d then scheduler_step r1 = Inr r2 else r2 = r1"
    and ls: "log_step E i l r2 = Inr (l, r')"
    by blast
  have "series r2 = series r"
  proof (cases d)
    case True
    with r2 scheduler_step_Inr [of r1 r2] show ?thesis by (auto simp: r1)
  next
    case False
    with r2 show ?thesis by (simp add: r1)
  qed
  with log_step_loss_series [OF ls] show ?thesis by simp
qed

section \<open>Concrete runs\<close>

lemmas eval_defs =
  conf_def one_tensor_def toy_def descend_def linear_schedule_def init_def new_buffer_def zeros_def
  run_setup_def
  set_phase_temperature_def step_batch_def step_def log_step_def optimizer_step_def
  grads_at_optimizer_step_def clamp_grads_def backward_all_def scheduler_step_def
  log_param_metrics_def add_scalar_def Let_def

lemma fresh_eq: "init (toy linear_schedule) one_tensor (conf 10 3 5 1 1) None = Inr fresh"
  by (simp add: fresh_def eval_defs)

lemma ready_eq: "run_setup (toy linear_schedule) fresh = Inr ready"
  by (simp add: ready_def fresh_def eval_defs)

lemma ready_fields:
  "cfg ready = conf 10 3 5 1 1" "model ready = one_tensor" "descent_epochs ready = 2"
  "optimizer ready = Some \<lparr>param_groups = [\<lparr>g_lr = 10, g_temperature = 1, g_momentum = 0, g_num_data = 1\<rparr>], opt_state = 0\<rparr>"
  "param_names ready = [''w'']" "prev_loss ready = None" "scheduler ready \<noteq> None"
  by (simp_all add: ready_def fresh_def eval_defs)

lemma descending_eq: "set_phase_temperature 0 ready = Inr descending"
  by (simp add: descending_def set_phase_temperature_def ready_fields)

lemma stepped_eq:
  "for_each [()] (step_batch (toy linear_schedule)) (0, descending) = Inr (1, stepped)"
proof -
  have "\<exists>r. for_each [()] (step_batch (toy linear_schedule)) (0, descending) = Inr (1, r)"
    by (simp add: descending_def ready_def fresh_def eval_defs)
  then show ?thesis by (auto simp: stepped_def)
qed

lemma stepped_fields:
  "cfg stepped = conf 10 3 5 1 1"
  "model stepped = [\<lparr>p_name = ''w'', p_data = [- 2, 1], p_grad = [Num 3, Num (- 3)]\<rparr>]"
  "optimizer stepped = Some \<lparr>param_groups = [\<lparr>g_lr = 9, g_temperature = 0, g_momentum = 0, g_num_data = 1\<rparr>], opt_state = 1\<rparr>"
  "param_names stepped = [''w'']" "prev_loss stepped = Some (- 1)" "scheduler stepped \<noteq> None"
  "series stepped ''loss'' = [- 1]" "series stepped ''log_prob_accept'' = []"
  by (simp_all add: stepped_def descending_def ready_def fresh_def eval_defs series_def)

lemma descending_fields:
  "cfg descending = conf 10 3 5 1 1" "model descending = one_tensor"
  "optimizer descending = Some \<lparr>param_groups = [\<lparr>g_lr = 10, g_temperature = 0, g_momentum = 0, g_num_data = 1\<rparr>], opt_state = 0\<rparr>"
  by (simp_all add: descending_def set_phase_temperature_def ready_fields)

lemma descending_step_eq:
  "step (toy linear_schedule) 0 () True descending = Inr (- 1, stepped)"
proof -
  from stepped_eq obtain l where s: "step (toy linear_schedule) 0 () True descending = Inr (l, stepped)"
    by (auto simp: step_batch_def split: sum.splits)
  from step_preserves(8) [OF s] have "l = - 1"
    by (simp add: descending_fields conf_def toy_def one_tensor_def)
  with s show ?thesis by simp
qed

text \<open>The amended claim C8 at the first step of the scenario.\<close>

theorem gradients_clamped_at_optimizer_step_witness:
  "0 \<le> grad_max (cfg descending)
   \<and> backward (toy linear_schedule) (model descending) () (temperature (cfg descending))
         (data_mult (cfg descending)) 0 = [Num 5, Num (- 10)]
   \<and> map p_grad (grads_at_optimizer_step (toy linear_schedule) () descending) = [[Num 3, Num (- 3)]]
   \<and> in_range (grad_max (cfg descending)) (Num 3) \<and> in_range (grad_max (cfg descending)) (Num (- 3))
   \<and> step (toy linear_schedule) 0 () True descending = Inr (- 1, stepped)
   \<and> model stepped = [\<lparr>p_name = ''w'', p_data = [- 2, 1], p_grad = [Num 3, Num (- 3)]\<rparr>]"
proof -
  let ?E = "toy linear_schedule"
  let ?G = "grads_at_optimizer_step ?E () descending"
  note t = gradients_clamped_at_optimizer_step [of ?E "()" descending]
  have h: "0 \<le> grad_max (cfg descending)"
    by (simp add: descending_fields conf_def)
  have b: "backward ?E (model descending) () (temperature (cfg descending))
         (data_mult (cfg descending)) 0 = [Num 5, Num (- 10)]"
    by (simp add: descending_fields conf_def toy_def one_tensor_def)
  have len: "length ?G = 1"
    by (simp add: descending_fields one_tensor_def)
  from t b have "p_grad (?G ! 0) = [Num 3, Num (- 3)]"
    by (simp add: descending_fields conf_def one_tensor_def)
  with len have g: "map p_grad ?G = [[Num 3, Num (- 3)]]"
    by (cases ?G) auto
  then have "?G ! 0 \<in> set ?G" "Num 3 \<in> set (p_grad (?G ! 0))" "Num (- 3) \<in> set (p_grad (?G ! 0))"
    using len by (cases ?G; simp)+
  with t h have r: "in_range (grad_max (cfg descending)) (Num 3)"
    "in_range (grad_max (cfg descending)) (Num (- 3))"
    by blast+
  from t descending_step_eq descending_fields(3)
  have "model stepped = snd (optimizer_step ?E
      \<lparr>param_groups = [\<lparr>g_lr = 10, g_temperature = 0, g_momentum = 0, g_num_data = 1\<rparr>], opt_state = 0\<rparr> ?G)"
    by blast
  then have "model stepped = [\<lparr>p_name = ''w'', p_data = [- 2, 1], p_grad = [Num 3, Num (- 3)]\<rparr>]"
    by (simp add: stepped_fields)
  with h b g r descending_step_eq show ?thesis by simp
qed

lemma inverted_fields:
  "cfg inverted = (conf 10 3 5 1 1)\<lparr>grad_max := - 3\<rparr>" "model inverted = one_tensor"
  by (simp_all add: inverted_def ready_fields)

text \<open>
  Claim C8 as stated fails: a \<^verbatim>\<open>nan\<close> element of the raw gradient reaches
  \<^verbatim>\<open>optimizer.step()\<close> as \<^verbatim>\<open>nan\<close>, which is in no range; and with a negative \<open>grad_max\<close>
  every element is clamped to \<open>grad_max\<close>, which is outside the empty range
  \<open>[- grad_max, grad_max]\<close>.
\<close>

theorem nan_gradient_passes_the_clamp:
  "map p_grad (grads_at_optimizer_step nan_toy () ready) = [[NaN, Num 3]]
   \<and> \<not> in_range (grad_max (cfg ready)) NaN
   \<and> grad_max (cfg inverted) = - 3
   \<and> map p_grad (grads_at_optimizer_step (toy linear_schedule) () inverted) = [[Num (- 3), Num (- 3)]]
   \<and> \<not> in_range (grad_max (cfg inverted)) (Num (- 3))"
  by (simp add: nan_toy_def ready_fields inverted_fields in_range_def eval_defs)

lemma stepped_twice_eq: "step (toy linear_schedule) 1 () True stepped = Inr (- 1, stepped_twice)"
proof -
  have "\<exists>r. step (toy linear_schedule) 1 () True stepped = Inr (- 1, r)"
    by (simp add: stepped_def descending_def ready_def fresh_def eval_defs)
  then show ?thesis by (auto simp: stepped_twice_def)
qed

theorem step_appends_metrics_witness:
  "optimizer stepped = Some \<lparr>param_groups = [\<lparr>g_lr = 9, g_temperature = 0, g_momentum = 0, g_num_data = 1\<rparr>], opt_state = 1\<rparr>
   \<and> scheduler stepped \<noteq> None
   \<and> prev_loss stepped = Some (- 1)
   \<and> distinct (param_names stepped)
   \<and> length (param_names stepped) = length (model stepped)
   \<and> step (toy linear_schedule) 1 () True stepped = Inr (- 1, stepped_twice)
   \<and> series stepped_twice ''loss'' = [- 1, - 1]
   \<and> series stepped_twice ''log_prob_accept'' = [0]"
proof -
  let ?opt = "\<lparr>param_groups = [\<lparr>g_lr = 9, g_temperature = 0, g_momentum = 0, g_num_data = 1\<rparr>], opt_state = 1\<rparr>
                :: (int, nat) sgld"
  have h1: "optimizer stepped = Some ?opt" by (rule stepped_fields)
  have h2: "param_groups ?opt \<noteq> []" by simp
  have h3: "True \<longrightarrow> scheduler stepped \<noteq> None" by (simp add: stepped_fields)
  have h4: "0 < (1::int) \<longrightarrow> prev_loss stepped = Some (- 1)" by (simp add: stepped_fields)
  have h5: "distinct (param_names stepped)" by (simp add: stepped_fields)
  have h6: "length (param_names stepped) = length (model stepped)" by (simp add: stepped_fields)
  from step_appends_metrics [OF h1 h2 h3 h4 h5 h6, of "toy linear_schedule" "()"]
  obtain l r' where s: "step (toy linear_schedule) 1 () True stepped = Inr (l, r')"
    and lo: "series r' ''loss'' = series stepped ''loss'' @ [l]"
    and la: "series r' ''log_prob_accept'' = series stepped ''log_prob_accept'' @ [- 1 - l]"
    by auto
  from s stepped_twice_eq have "l = - 1" "r' = stepped_twice" by simp_all
  with lo la have "series stepped_twice ''loss'' = [- 1, - 1]"
    "series stepped_twice ''log_prob_accept'' = [0]"
    by (simp_all add: stepped_fields)
  with h1 h5 h6 stepped_twice_eq show ?thesis
    by (simp add: stepped_fields)
qed

lemmas run_defs =
  eval_defs run_def run_cycle_def run_epoch_def py_range_def upt_rec maybe_estimate_def
  record_samples_def write_sample_def set_item_def get_samples_def

section \<open>The calls of the sampler along a run\<close>

lemma for_each_count:
  assumes "\<And>x s s' k. P k s \<Longrightarrow> body x s = Inr s' \<Longrightarrow> P (k + d) s'"
    and "P k s" and "for_each xs body s = Inr s'"
  shows "P (k + d * int (length xs)) s'"
  using assms(2,3)
proof (induction xs arbitrary: s k)
  case Nil
  then show ?case by simp
next
  case (Cons x xs)
  from Cons.prems(2) obtain s1 where 1: "body x s = Inr s1" and 2: "for_each xs body s1 = Inr s'"
    by (auto split: sum.splits)
  from assms(1) [OF Cons.prems(1) 1] have "P (k + d) s1" .
  from Cons.IH [OF this 2] show ?case by (simp add: algebra_simps)
qed

lemma scheduled_run_setup:
  assumes "run_setup E r = Inr r0"
  shows "scheduled (learning_rate (cfg r))
           (get_cosine_schedule E (int (length (dataloader (cfg r))) * epochs_per_cycle (cfg r)))
           (cfg r) 0 r0"
  using assms by (auto simp: run_setup_def scheduled_def Let_def split: list.splits)

lemma scheduled_step:
  assumes "scheduled L sch c k r" and "step E i xy True r = Inr (l, r')"
  shows "scheduled L sch c (k + 1) r'"
proof -
  from step_Inr [OF assms(2)] obtain opt r1 r2 M W where
    o: "optimizer r = Some opt" and
    r1: "r1 = r\<lparr>model := snd (optimizer_step E opt (grads_at_optimizer_step E xy r)),
                optimizer := Some (fst (optimizer_step E opt (grads_at_optimizer_step E xy r)))\<rparr>" and
    r2: "scheduler_step r1 = Inr r2" and
    r': "r' = r2\<lparr>metrics := M, summary_writer := W, prev_loss := Some l\<rparr>"
    by auto
  from assms(1) o obtain s g where g: "param_groups opt = [g]" "g_lr g = L * sch k"
    and s: "scheduler r = Some s" "lr_lambda s = sch" "base_lrs s = [L]" "last_epoch s = k"
    and c: "cfg r = c"
    by (auto simp: scheduled_def)
  from r2 have "r2 = r1\<lparr> scheduler := Some (s\<lparr>last_epoch := k + 1\<rparr>),
                      optimizer := Some ((fst (optimizer_step E opt (grads_at_optimizer_step E xy r)))
                         \<lparr>param_groups := [g\<lparr>g_lr := L * sch (k + 1)\<rparr>]\<rparr>) \<rparr>"
    using s g by (auto simp: scheduler_step_def r1 Let_def optimizer_step_def)
  then show ?thesis
    using s c by (simp add: scheduled_def r' r1)
qed

lemma scheduled_step_batch:
  assumes "scheduled L sch c k (snd sr)" and "step_batch E xy sr = Inr sr'"
  shows "scheduled L sch c (k + 1) (snd sr')"
proof -
  from step_batch_Inr [OF assms(2)] obtain l where
    "step E (fst sr) xy True (snd sr) = Inr (l, snd sr')" by auto
  from scheduled_step [OF assms(1) this] show ?thesis .
qed

lemma scheduled_set_phase_temperature:
  assumes "scheduled L sch c k r" and "set_phase_temperature epoch r = Inr r1"
  shows "scheduled L sch c k r1"
  using assms by (auto simp: scheduled_def set_phase_temperature_def)

lemma scheduled_maybe_estimate:
  assumes "scheduled L sch c k r" and "maybe_estimate E epoch r = Inr r1"
  shows "scheduled L sch c k r1"
  using assms by (auto simp: scheduled_def maybe_estimate_def split: option.splits if_splits)

lemma scheduled_write_sample:
  assumes "scheduled L sch c k r" and "write_sample key idx v r = Inr r1"
  shows "scheduled L sch c k r1"
  using assms by (auto simp: scheduled_def write_sample_def split: option.splits sum.splits)

lemma record_samples_Inr:
  assumes "record_samples cycle epoch r = Inr r1"
  shows "r1 = r \<or> (\<exists>r' v idx.
           for_each (model r) (\<lambda>p. write_sample (p_name p @ ''.p'') idx (p_data p)) r = Inr r'
           \<and> write_sample ''lr'' idx v r' = Inr r1)"
proof (cases "r1 = r")
  case True
  then show ?thesis by simp
next
  case False
  let ?idx = "num_samples r * cycle
                + (epoch - (descent_epochs r + warmup_epochs (cfg r))) div skip (cfg r)"
  let ?loop = "for_each (model r) (\<lambda>p. write_sample (p_name p @ ''.p'') ?idx (p_data p)) r"
  from assms False have rs: "(case ?loop of Inl e \<Rightarrow> Inl e
            | Inr r' \<Rightarrow>
               (case optimizer r' of
                  None \<Rightarrow> Inl AttributeError
                | Some opt \<Rightarrow>
                   (case param_groups opt of
                      [] \<Rightarrow> Inl IndexError
                    | g0 # _ \<Rightarrow> write_sample ''lr'' ?idx [g_lr g0] r'))) = Inr r1"
    by (auto simp: record_samples_def Let_def split: if_splits)
  then obtain r' where l: "?loop = Inr r'" by (cases ?loop) auto
  with rs obtain opt where o: "optimizer r' = Some opt" by (cases "optimizer r'") auto
  with rs l obtain g0 gs where g: "param_groups opt = g0 # gs" by (cases "param_groups opt") auto
  with rs l o have "write_sample ''lr'' ?idx [g_lr g0] r' = Inr r1" by simp
  with l show ?thesis by blast
qed

lemma scheduled_record_samples:
  assumes "scheduled L sch c k r" and "record_samples cycle epoch r = Inr r1"
  shows "scheduled L sch c k r1"
proof -
  from record_samples_Inr [OF assms(2)] consider "r1 = r"
    | r' v idx where
      "for_each (model r) (\<lambda>p. write_sample (p_name p @ ''.p'') idx (p_data p)) r = Inr r'"
      "write_sample ''lr'' idx v r' = Inr r1"
    by blast
  then show ?thesis
  proof cases
    case 1
    with assms(1) show ?thesis by simp
  next
    case 2
    have "scheduled L sch c k r'"
      by (rule for_each_invariant [where P = "scheduled L sch c k", OF _ assms(1) 2(1)])
        (rule scheduled_write_sample)
    from scheduled_write_sample [OF this 2(2)] show ?thesis .
  qed
qed

lemma length_py_range [simp]: "int (length (py_range n)) = max 0 n"
  by (simp add: py_range_def)

lemma for_each_appends:
  assumes "\<And>x s s' ys. P ys s \<Longrightarrow> body x s = Inr s' \<Longrightarrow> P (ys @ F x) s'"
    and "P ys s" and "for_each xs body s = Inr s'"
  shows "P (ys @ concat (map F xs)) s'"
  using assms(2,3)
proof (induction xs arbitrary: s ys)
  case Nil
  then show ?case by simp
next
  case (Cons x xs)
  from Cons.prems(2) obtain s1 where 1: "body x s = Inr s1" and 2: "for_each xs body s1 = Inr s'"
    by (auto split: sum.splits)
  from assms(1) [OF Cons.prems(1) 1] have "P (ys @ F x) s1" .
  from Cons.IH [OF this 2] show ?case by simp
qed

lemma step_opt_state:
  assumes "step E i xy d r = Inr (l, r')"
  shows "\<exists>opt opt'. optimizer r = Some opt \<and> optimizer r' = Some opt'
     \<and> opt_state opt' = sgld_state E (param_groups opt) (opt_state opt) (grads_at_optimizer_step E xy r)
     \<and> length (param_groups opt') = length (param_groups opt)"
proof -
  from step_Inr [OF assms] obtain opt r1 r2 M W where
    o: "optimizer r = Some opt" and
    r1: "r1 = r\<lparr>model := snd (optimizer_step E opt (grads_at_optimizer_step E xy r)),
                optimizer := Some (fst (optimizer_step E opt (grads_at_optimizer_step E xy r)))\<rparr>" and
    r2: "if d then scheduler_step r1 = Inr r2 else r2 = r1" and
    r': "r' = r2\<lparr>metrics := M, summary_writer := W, prev_loss := Some l\<rparr>"
    by blast
  have "\<exists>opt2. optimizer r2 = Some opt2
      \<and> opt_state opt2 = sgld_state E (param_groups opt) (opt_state opt) (grads_at_optimizer_step E xy r)
      \<and> length (param_groups opt2) = length (param_groups opt)"
  proof (cases d)
    case True
    with r2 have "scheduler_step r1 = Inr r2" by simp
    from scheduler_step_Inr [OF this] show ?thesis
      by (auto simp: r1 optimizer_step_def)
  next
    case False
    with r2 r1 show ?thesis by (simp add: optimizer_step_def)
  qed
  with o show ?thesis by (simp add: r')
qed

lemma groups_seen_step:
  assumes "recording E seen" and "step E i xy d r = Inr (l, r')" and "optimizer r = Some opt"
  shows "groups_seen seen r' = groups_seen seen r @ [param_groups opt]"
  using step_opt_state [OF assms(2)] assms(1,3)
  by (auto simp: groups_seen_def recording_def)

lemma groups_seen_set_phase_temperature:
  assumes "set_phase_temperature epoch r = Inr r1"
  shows "groups_seen seen r1 = groups_seen seen r"
  using set_phase_temperature_Inr [OF assms] by (auto simp: groups_seen_def)

lemma groups_seen_maybe_estimate:
  assumes "recording E seen" and "maybe_estimate E epoch r = Inr r1"
  shows "groups_seen seen r1 = groups_seen seen r"
  using assms
  by (auto simp: maybe_estimate_def groups_seen_def recording_def split: option.splits if_splits)

lemma write_sample_frame:
  assumes "write_sample key idx v r = Inr r1"
  shows "optimizer r1 = optimizer r \<and> cfg r1 = cfg r \<and> descent_epochs r1 = descent_epochs r
     \<and> metrics r1 = metrics r \<and> model r1 = model r"
  using assms by (auto simp: write_sample_def split: option.splits sum.splits)

lemma record_samples_frame:
  assumes "record_samples cycle epoch r = Inr r1"
  shows "optimizer r1 = optimizer r \<and> cfg r1 = cfg r \<and> descent_epochs r1 = descent_epochs r
     \<and> metrics r1 = metrics r \<and> model r1 = model r"
proof -
  let ?P = "\<lambda>s. optimizer s = optimizer r \<and> cfg s = cfg r \<and> descent_epochs s = descent_epochs r
     \<and> metrics s = metrics r \<and> model s = model r"
  from record_samples_Inr [OF assms] consider "r1 = r"
    | r' v idx where
      "for_each (model r) (\<lambda>p. write_sample (p_name p @ ''.p'') idx (p_data p)) r = Inr r'"
      "write_sample ''lr'' idx v r' = Inr r1"
    by blast
  then show ?thesis
  proof cases
    case 1
    then show ?thesis by simp
  next
    case 2
    have "?P r'"
    proof (rule for_each_invariant [where P = ?P, OF _ _ 2(1)])
      show "?P r" by simp
    next
      fix x s s'
      assume "?P s" and "write_sample (p_name x @ ''.p'') idx (p_data x) s = Inr s'"
      with write_sample_frame [of "p_name x @ ''.p''" idx "p_data x" s s'] show "?P s'" by simp
    qed
    with write_sample_frame [OF 2(2)] show ?thesis by simp
  qed
qed

lemma heated_run_setup:
  assumes "recording E seen" and "run_setup E r = Inr r0"
  shows "heated seen (cfg r) (descent_epochs r) [] r0"
  using assms
  by (auto simp: run_setup_def heated_def groups_seen_def recording_def Let_def split: list.splits)

lemma heated_step_batch:
  assumes rec: "recording E seen"
    and h: "heated seen c d ys (snd sr) \<and> group_temperatures (snd sr) = [t]"
    and s: "step_batch E xy sr = Inr sr'"
  shows "heated seen c d (ys @ [[t]]) (snd sr') \<and> group_temperatures (snd sr') = [t]"
proof -
  from step_batch_Inr [OF s] obtain l where st: "step E (fst sr) xy True (snd sr) = Inr (l, snd sr')"
    by blast
  from h obtain opt where o: "optimizer (snd sr) = Some opt" "length (param_groups opt) = 1"
    by (auto simp: heated_def)
  from h o have t: "map g_temperature (param_groups opt) = [t]"
    by (simp add: group_temperatures_def)
  from step_opt_state [OF st] o obtain opt' where
    o': "optimizer (snd sr') = Some opt'" "length (param_groups opt') = 1"
    by auto
  from groups_seen_step [OF rec st o(1)] h t
  have "map (map g_temperature) (groups_seen seen (snd sr')) = ys @ [[t]]"
    by (simp add: heated_def)
  with step_preserves(1,2,7) [OF st] h o' show ?thesis
    by (simp add: heated_def)
qed

lemma heated_run_epoch:
  assumes rec: "recording E seen"
    and h: "heated seen c d ys (snd sr)"
    and run: "run_epoch E cycle epoch sr = Inr sr'"
  shows "heated seen c d
           (ys @ replicate (length (dataloader c)) [if epoch < d then 0 else temperature c])
           (snd sr')"
proof -
  let ?t = "if epoch < d then 0 else temperature c"
  from run obtain r1 sr2 r3 r4 where
    1: "set_phase_temperature epoch (snd sr) = Inr r1" and
    2: "for_each (dataloader (cfg r1)) (step_batch E) (fst sr, r1) = Inr sr2" and
    3: "maybe_estimate E epoch (snd sr2) = Inr r3" and
    4: "record_samples cycle epoch r3 = Inr r4" and
    5: "sr' = (fst sr2, r4)"
    by (auto simp: run_epoch_def split: sum.splits)
  from h obtain opt where o: "optimizer (snd sr) = Some opt" "length (param_groups opt) = 1"
    by (auto simp: heated_def)
  from set_phase_temperature_Inr [OF 1] o h
  have r1: "r1 = (snd sr)\<lparr>optimizer := Some (opt\<lparr>param_groups :=
                 map (\<lambda>g. g\<lparr>g_temperature := ?t\<rparr>) (param_groups opt)\<rparr>)\<rparr>"
    by (auto simp: heated_def)
  from o(2) have "map g_temperature (map (\<lambda>g. g\<lparr>g_temperature := ?t\<rparr>) (param_groups opt)) = [?t]"
    by (cases "param_groups opt") simp_all
  with r1 have t1: "group_temperatures r1 = [?t]"
    by (simp add: group_temperatures_def)
  from h r1 o groups_seen_set_phase_temperature [OF 1, of seen]
  have h1: "heated seen c d ys r1"
    by (simp add: heated_def)
  then have c1: "cfg r1 = c" by (simp add: heated_def)
  let ?P = "\<lambda>zs s. heated seen c d zs (snd s) \<and> group_temperatures (snd s) = [?t]"
  have "?P (ys @ concat (map (\<lambda>_. [[?t]]) (dataloader (cfg r1)))) sr2"
  proof (rule for_each_appends [where P = ?P, OF _ _ 2])
    show "?P ys (fst sr, r1)" using h1 t1 by simp
  next
    fix x s s' zs
    assume "?P zs s" and "step_batch E x s = Inr s'"
    with heated_step_batch [OF rec, of c d zs s ?t x s'] show "?P (zs @ [[?t]]) s'" by blast
  qed
  moreover have "concat (map (\<lambda>_. [[?t]]) bs) = replicate (length bs) [?t]" for bs :: "'b list"
    by (induction bs) simp_all
  ultimately have h2: "heated seen c d (ys @ replicate (length (dataloader c)) [?t]) (snd sr2)"
    by (simp add: c1)
  from h2 groups_seen_maybe_estimate [OF rec 3] 3
  have h3: "heated seen c d (ys @ replicate (length (dataloader c)) [?t]) r3"
    by (auto simp: heated_def maybe_estimate_def split: option.splits if_splits)
  from h3 record_samples_frame [OF 4]
  have "heated seen c d (ys @ replicate (length (dataloader c)) [?t]) r4"
    by (simp add: heated_def groups_seen_def)
  with 5 show ?thesis by simp
qed

lemma heated_run_cycle:
  assumes rec: "recording E seen"
    and h: "heated seen c d ys r"
    and run: "run_cycle E cycle r = Inr r'"
  shows "heated seen c d
           (ys @ concat (map (\<lambda>epoch. replicate (length (dataloader c))
                                 [if epoch < d then 0 else temperature c])
                           (py_range (epochs_per_cycle c))))
           r'"
proof -
  from h have c: "cfg r = c" by (simp add: heated_def)
  from run obtain sr where
    1: "for_each (py_range (epochs_per_cycle (cfg r))) (run_epoch E cycle) (0, r) = Inr sr"
    and 2: "r' = snd sr"
    by (auto simp: run_cycle_def split: sum.splits)
  let ?P = "\<lambda>zs s. heated seen c d zs (snd s)"
  let ?F = "\<lambda>epoch. replicate (length (dataloader c)) [if epoch < d then 0 else temperature c]"
  have "?P (ys @ concat (map ?F (py_range (epochs_per_cycle (cfg r))))) sr"
  proof (rule for_each_appends [where P = ?P, OF _ _ 1])
    show "?P ys (0, r)" using h by simp
  next
    fix x s s' zs
    assume "?P zs s" and "run_epoch E cycle x s = Inr s'"
    then show "?P (zs @ ?F x) s'" by (rule heated_run_epoch [OF rec])
  qed
  with 2 c show ?thesis by simp
qed

lemma heated_cycles:
  assumes rec: "recording E seen"
    and h: "heated seen c d ys r"
    and run: "for_each cs (run_cycle E) r = Inr r'"
  shows "heated seen c d
           (ys @ concat (map (\<lambda>cycle. concat (map (\<lambda>epoch. replicate (length (dataloader c))
                                 [if epoch < d then 0 else temperature c])
                           (py_range (epochs_per_cycle c)))) cs))
           r'"
proof (rule for_each_appends [where P = "heated seen c d", OF _ h run])
  fix x s s' zs
  assume "heated seen c d zs s" and "run_cycle E x s = Inr s'"
  then show "heated seen c d
           (zs @ concat (map (\<lambda>epoch. replicate (length (dataloader c))
                                 [if epoch < d then 0 else temperature c])
                           (py_range (epochs_per_cycle c)))) s'"
    by (rule heated_run_cycle [OF rec])
qed

lemma run_Inr:
  assumes "run E r = Inr rf"
  shows "\<exists>r0. run_setup E r = Inr r0 \<and> cfg r0 = cfg r
     \<and> for_each (py_range (cycles (cfg r))) (run_cycle E) r0 = Inr rf"
proof -
  from assms obtain r0 where 0: "run_setup E r = Inr r0"
    and 1: "for_each (py_range (cycles (cfg r0))) (run_cycle E) r0 = Inr rf"
    by (auto simp: run_def split: sum.splits)
  from 0 have "cfg r0 = cfg r"
    by (auto simp: run_setup_def Let_def split: list.splits)
  with 0 1 show ?thesis by simp
qed

subsection \<open>The run with the sampler's record\<close>

lemma for_each_simulate:
  assumes "\<And>x s. body x (f s) = map_sum id f (body' x s)"
  shows "for_each xs body (f s) = map_sum id f (for_each xs body' s)"
proof (induction xs arbitrary: s)
  case Nil
  then show ?case by simp
next
  case (Cons x xs)
  show ?case
  proof (cases "body' x s")
    case (Inl e)
    with assms [of x s] show ?thesis by simp
  next
    case (Inr s1)
    with assms [of x s] Cons.IH [of s1] show ?thesis by simp
  qed
qed

lemma spy_fields [simp]:
  "potential_avg (spy E) = potential_avg E"
  "backward (spy E) = backward E"
  "sgld_init (spy E) ps = (sgld_init E ps, [])"
  "sgld_data (spy E) gs st ps = sgld_data E gs (fst st) ps"
  "sgld_state (spy E) gs st ps = (sgld_state E gs (fst st) ps, snd st @ [gs])"
  "estimate_preconditioner (spy E) gs st ps = (estimate_preconditioner E gs (fst st) ps, snd st)"
  "preconditioner (spy E) st = preconditioner E (fst st)"
  "est_temperature (spy E) st = est_temperature E (fst st)"
  "est_config_temp (spy E) st = est_config_temp E (fst st)"
  "get_cosine_schedule (spy E) = get_cosine_schedule E"
  "fits_memory (spy E) = fits_memory E"
  by (simp_all add: spy_def)

lemma unspied_sgld_fields [simp]:
  "param_groups (unspied_sgld opt) = param_groups opt"
  "opt_state (unspied_sgld opt) = fst (opt_state opt)"
  "(unspied_sgld opt)\<lparr>param_groups := gs\<rparr> = unspied_sgld (opt\<lparr>param_groups := gs\<rparr>)"
  by (simp_all add: unspied_sgld_def)

lemma unspied_fields [simp]:
  "cfg (unspied r) = cfg r" "model (unspied r) = model r"
  "descent_epochs (unspied r) = descent_epochs r" "num_samples (unspied r) = num_samples r"
  "summary_writer (unspied r) = summary_writer r" "samples (unspied r) = samples r"
  "metrics (unspied r) = metrics r" "param_names (unspied r) = param_names r"
  "optimizer (unspied r) = map_option unspied_sgld (optimizer r)"
  "scheduler (unspied r) = scheduler r" "prev_loss (unspied r) = prev_loss r"
  by (simp_all add: unspied_def)

lemma unspied_updates [simp]:
  "(unspied r)\<lparr>metrics := M\<rparr> = unspied (r\<lparr>metrics := M\<rparr>)"
  "(unspied r)\<lparr>summary_writer := W\<rparr> = unspied (r\<lparr>summary_writer := W\<rparr>)"
  "(unspied r)\<lparr>model := m\<rparr> = unspied (r\<lparr>model := m\<rparr>)"
  "(unspied r)\<lparr>optimizer := Some (unspied_sgld opt)\<rparr> = unspied (r\<lparr>optimizer := Some opt\<rparr>)"
  "(unspied r)\<lparr>scheduler := sc\<rparr> = unspied (r\<lparr>scheduler := sc\<rparr>)"
  "(unspied r)\<lparr>prev_loss := pl\<rparr> = unspied (r\<lparr>prev_loss := pl\<rparr>)"
  "(unspied r)\<lparr>samples := sm\<rparr> = unspied (r\<lparr>samples := sm\<rparr>)"
  "(unspied r)\<lparr>param_names := ns\<rparr> = unspied (r\<lparr>param_names := ns\<rparr>)"
  by (simp_all add: unspied_def)

lemma unspied_add_scalar [simp]:
  "add_scalar n v i (unspied r) = unspied (add_scalar n v i r)"
  by (rule runner.equality) (simp_all add: add_scalar_def unspied_def split: option.splits)

lemma unspied_log_param_metrics:
  "log_param_metrics E i (fst st) kns (unspied r) = unspied (log_param_metrics (spy E) i st kns r)"
  by (induction kns arbitrary: r) (auto simp: log_param_metrics_def)

lemma unspied_log_step:
  "log_step E i l (unspied r) = map_sum id (map_prod id unspied) (log_step (spy E) i l r)"
  by (simp add: log_step_def Let_def unspied_log_param_metrics split: option.splits list.splits)

lemma unspied_scheduler_step:
  "scheduler_step (unspied r) = map_sum id unspied (scheduler_step r)"
  by (simp add: scheduler_step_def Let_def split: option.splits)

lemma unspied_grads [simp]:
  "grads_at_optimizer_step E xy (unspied r) = grads_at_optimizer_step (spy E) xy r"
  by (simp add: grads_at_optimizer_step_def backward_all_def)

lemma unspied_optimizer_step:
  "optimizer_step E (unspied_sgld opt) ps
     = (unspied_sgld (fst (optimizer_step (spy E) opt ps)), snd (optimizer_step (spy E) opt ps))"
  by (simp add: optimizer_step_def unspied_sgld_def)

lemma unspied_step:
  "step E i xy d (unspied r) = map_sum id (map_prod id unspied) (step (spy E) i xy d r)"
proof (cases "optimizer r")
  case None
  then show ?thesis by (simp add: step_def)
next
  case (Some opt)
  show ?thesis
  proof (cases "param_groups opt")
    case Nil
    with Some show ?thesis by (simp add: step_def)
  next
    case (Cons g0 gs)
    let ?os = "optimizer_step (spy E) opt (grads_at_optimizer_step (spy E) xy r)"
    let ?r1 = "r\<lparr>model := snd ?os, optimizer := Some (fst ?os)\<rparr>"
    let ?l = "potential_avg E (model r) xy (temperature (cfg r)) (data_mult (cfg r))"
    let ?s = "if d then scheduler_step ?r1 else Inr ?r1"
    have lhs: "step E i xy d (unspied r)
        = (case (if d then scheduler_step (unspied ?r1) else Inr (unspied ?r1)) of
             Inl e \<Rightarrow> Inl e | Inr r2 \<Rightarrow> log_step E i ?l r2)"
      using Some Cons by (simp add: step_def Let_def unspied_optimizer_step)
    have rhs: "step (spy E) i xy d r
        = (case ?s of Inl e \<Rightarrow> Inl e | Inr r2 \<Rightarrow> log_step (spy E) i ?l r2)"
      using Some Cons by (simp add: step_def Let_def)
    have mid: "(if d then scheduler_step (unspied ?r1) else Inr (unspied ?r1))
        = map_sum id unspied ?s"
      by (simp add: unspied_scheduler_step)
    show ?thesis
      unfolding lhs rhs mid by (cases ?s) (simp_all add: unspied_log_step)
  qed
qed

lemma unspied_step_batch:
  "step_batch E xy (map_prod id unspied sr)
     = map_sum id (map_prod id unspied) (step_batch (spy E) xy sr)"
  by (cases "step (spy E) (fst sr) xy True (snd sr)") (auto simp: step_batch_def unspied_step)

lemma unspied_set_phase_temperature:
  "set_phase_temperature epoch (unspied r) = map_sum id unspied (set_phase_temperature epoch r)"
  by (simp add: set_phase_temperature_def split: option.splits)

lemma unspied_maybe_estimate:
  "maybe_estimate E epoch (unspied r) = map_sum id unspied (maybe_estimate (spy E) epoch r)"
  by (simp add: maybe_estimate_def split: option.splits)

lemma unspied_write_sample:
  "write_sample key idx v (unspied r) = map_sum id unspied (write_sample key idx v r)"
  by (simp add: write_sample_def split: option.splits sum.splits)

lemma unspied_record_samples:
  "record_samples cycle epoch (unspied r) = map_sum id unspied (record_samples cycle epoch r)"
proof -
  have loop: "for_each ps (\<lambda>p. write_sample (p_name p @ ''.p'') idx (p_data p)) (unspied r)
      = map_sum id unspied
          (for_each ps (\<lambda>p. write_sample (p_name p @ ''.p'') idx (p_data p)) r)" for ps idx
    by (rule for_each_simulate) (rule unspied_write_sample)
  show ?thesis
    unfolding record_samples_def Let_def unspied_fields loop
    by (simp add: unspied_write_sample split: sum.splits option.splits list.splits)
qed

lemma unspied_run_epoch:
  "run_epoch E cycle epoch (map_prod id unspied sr)
     = map_sum id (map_prod id unspied) (run_epoch (spy E) cycle epoch sr)"
proof -
  have loop: "for_each bs (step_batch E) (map_prod id unspied s)
      = map_sum id (map_prod id unspied) (for_each bs (step_batch (spy E)) s)" for bs s
    by (rule for_each_simulate) (rule unspied_step_batch)
  have loop': "for_each bs (step_batch E) (i, unspied r1)
      = map_sum id (map_prod id unspied) (for_each bs (step_batch (spy E)) (i, r1))" for bs i r1
    using loop [of bs "(i, r1)"] by simp
  show ?thesis
    unfolding run_epoch_def
    by (simp add: unspied_set_phase_temperature unspied_maybe_estimate unspied_record_samples loop'
        split: sum.splits)
qed

lemma unspied_run_cycle:
  "run_cycle E cycle (unspied r) = map_sum id unspied (run_cycle (spy E) cycle r)"
proof -
  have loop: "for_each es (run_epoch E cycle) (map_prod id unspied s)
      = map_sum id (map_prod id unspied) (for_each es (run_epoch (spy E) cycle) s)" for es s
    by (rule for_each_simulate) (rule unspied_run_epoch)
  have loop': "for_each es (run_epoch E cycle) (0, unspied r)
      = map_sum id (map_prod id unspied) (for_each es (run_epoch (spy E) cycle) (0, r))" for es
    using loop [of es "(0, r)"] by simp
  show ?thesis
    unfolding run_cycle_def
    by (simp add: loop' split: sum.splits)
qed

lemma unspied_run_setup:
  "run_setup E (unspied r) = map_sum id unspied (run_setup (spy E) r)"
  by (simp add: run_setup_def Let_def unspied_sgld_def split: list.splits)

lemma unspied_run: "run E (unspied r) = map_sum id unspied (run (spy E) r)"
proof (cases "run_setup (spy E) r")
  case (Inl e)
  then show ?thesis by (simp add: run_def unspied_run_setup)
next
  case (Inr r0)
  have loop: "for_each cs (run_cycle E) (unspied s)
      = map_sum id unspied (for_each cs (run_cycle (spy E)) s)" for cs s
    by (rule for_each_simulate) (rule unspied_run_cycle)
  with Inr show ?thesis
    by (simp add: run_def unspied_run_setup loop)
qed

lemma new_buffer_spy [simp]: "new_buffer (spy E) = new_buffer E"
  by (simp add: new_buffer_def fun_eq_iff)

lemma unspied_init: "init E mdl c w = map_sum id unspied (init (spy E) mdl c w)"
  by (simp add: init_def Let_def unspied_def split: sum.splits)

lemma recording_spy: "recording (spy E) snd"
  by (simp add: recording_def)

lemma spied_run:
  assumes "init E mdl c w = Inr r" and "run E r = Inr rf"
  shows "\<exists>r' rf'. init (spy E) mdl c w = Inr r' \<and> unspied r' = r
     \<and> run (spy E) r' = Inr rf' \<and> unspied rf' = rf"
proof -
  from assms(1) unspied_init [of E mdl c w] obtain r' where
    1: "init (spy E) mdl c w = Inr r'" "unspied r' = r"
    by (cases "init (spy E) mdl c w") auto
  from assms(2) 1(2) unspied_run [of E r'] obtain rf' where
    "run (spy E) r' = Inr rf'" "unspied rf' = rf"
    by (cases "run (spy E) r'") auto
  with 1 show ?thesis by blast
qed

subsection \<open>The phase temperature\<close>

lemma temperatures_of_run:
  fixes E :: "('a::linordered_idom, 'b, 'o) collaborators"
  assumes "recording E seen"
    and "init E mdl c w = Inr r"
    and "run E r = Inr rf"
  shows "map (map g_temperature) (groups_seen seen rf)
     = concat (map (\<lambda>cycle. concat (map (\<lambda>epoch. replicate (length (dataloader c))
           [if epoch < epochs_per_cycle c - warmup_epochs c - sample_epochs c
            then 0 else temperature c])
         (py_range (epochs_per_cycle c)))) (py_range (cycles c)))"
proof -
  from init_Inr_fields [OF assms(2)]
  have c: "cfg r = c"
    and d: "descent_epochs r = epochs_per_cycle c - warmup_epochs c - sample_epochs c"
    by simp_all
  from run_Inr [OF assms(3)] obtain r0 where 0: "run_setup E r = Inr r0"
    and 1: "for_each (py_range (cycles (cfg r))) (run_cycle E) r0 = Inr rf"
    by blast
  from heated_run_setup [OF assms(1) 0] have "heated seen c (descent_epochs r) [] r0"
    by (simp add: c)
  from heated_cycles [OF assms(1) this 1 [unfolded c]] show ?thesis
    by (simp add: heated_def d)
qed

lemmas spied_defs = run_defs spy_def

lemma short_eq: "init (spy (toy linear_schedule)) one_tensor (conf 3 1 1 1 2) None = Inr short"
  by (simp add: short_def spied_defs)

lemma short_done_eq: "run (spy (toy linear_schedule)) short = Inr short_done"
proof -
  have "\<exists>r. run (spy (toy linear_schedule)) short = Inr r"
    by (simp add: short_def spied_defs)
  then show ?thesis by (auto simp: short_done_def)
qed

text \<open>
  Claim C5. A run from the runner that \<^verbatim>\<open>__init__\<close> returns is, up to the record, the run
  with the sampler's record, and in that record the temperatures that the calls of
  \<^verbatim>\<open>optimizer.step()\<close> find in the param groups are, cycle after cycle and epoch after
  epoch, once per batch of the epoch: 0 in the one group when the epoch is below
  \<open>epochs_per_cycle - warmup_epochs - sample_epochs\<close>, and the configured temperature in
  every later epoch of the cycle. So the phase temperature is in every group before any
  batch step of the epoch, and stays through all of them.
\<close>

theorem phase_temperature_at_every_step:
  fixes E :: "('a::linordered_idom, 'b, 'o) collaborators"
  assumes "init E mdl c w = Inr r"
    and "run E r = Inr rf"
  shows "\<exists>r' rf'. init (spy E) mdl c w = Inr r' \<and> unspied r' = r
     \<and> run (spy E) r' = Inr rf' \<and> unspied rf' = rf
     \<and> map (map g_temperature) (groups_seen snd rf')
        = concat (map (\<lambda>cycle. concat (map (\<lambda>epoch. replicate (length (dataloader c))
              [if epoch < epochs_per_cycle c - warmup_epochs c - sample_epochs c
               then 0 else temperature c])
            (py_range (epochs_per_cycle c)))) (py_range (cycles c)))"
proof -
  from spied_run [OF assms] obtain r' rf' where
    s: "init (spy E) mdl c w = Inr r'" "unspied r' = r" "run (spy E) r' = Inr rf'" "unspied rf' = rf"
    by blast
  from temperatures_of_run [OF recording_spy s(1) s(3)] s show ?thesis
    by blast
qed

text \<open>Two cycles of one descent epoch, one warm-up epoch and one sampling epoch.\<close>

theorem phase_temperature_at_every_step_witness:
  "init (toy linear_schedule) one_tensor (conf 3 1 1 1 2) None = Inr (unspied short)
   \<and> run (toy linear_schedule) (unspied short) = Inr (unspied short_done)
   \<and> init (spy (toy linear_schedule)) one_tensor (conf 3 1 1 1 2) None = Inr short
   \<and> run (spy (toy linear_schedule)) short = Inr short_done
   \<and> map (map g_temperature) (groups_seen snd short_done) = [[0], [1], [1], [0], [1], [1]]"
proof -
  let ?E = "toy linear_schedule"
  let ?c = "conf 3 1 1 1 2 :: (int, unit) config"
  have h1: "init ?E one_tensor ?c None = Inr (unspied short)"
    by (simp add: unspied_init [of ?E] short_eq)
  have h2: "run ?E (unspied short) = Inr (unspied short_done)"
    by (simp add: unspied_run short_done_eq)
  from phase_temperature_at_every_step [OF h1 h2] obtain r' rf' where
    s: "init (spy ?E) one_tensor ?c None = Inr r'" "run (spy ?E) r' = Inr rf'"
    and t: "map (map g_temperature) (groups_seen snd rf')
        = concat (map (\<lambda>cycle. concat (map (\<lambda>epoch. replicate (length (dataloader ?c))
              [if epoch < epochs_per_cycle ?c - warmup_epochs ?c - sample_epochs ?c
               then 0 else temperature ?c])
            (py_range (epochs_per_cycle ?c)))) (py_range (cycles ?c)))"
    by blast
  from s short_eq short_done_eq have "rf' = short_done" by simp
  with t have "map (map g_temperature) (groups_seen snd short_done) = [[0], [1], [1], [0], [1], [1]]"
    by (simp add: conf_def py_range_def upt_rec)
  with h1 h2 short_eq short_done_eq show ?thesis by simp
qed

subsection \<open>The learning rate\<close>

lemma rated_run_setup:
  assumes "recording E seen" and "run_setup E r = Inr r0"
  shows "rated seen (learning_rate (cfg r))
           (get_cosine_schedule E (int (length (dataloader (cfg r))) * epochs_per_cycle (cfg r)))
           (cfg r) 0 r0"
proof -
  from assms have "groups_seen seen r0 = []"
    by (auto simp: run_setup_def groups_seen_def recording_def Let_def split: list.splits)
  with scheduled_run_setup [OF assms(2)] show ?thesis
    by (simp add: rated_def)
qed

lemma rated_step_batch:
  assumes rec: "recording E seen"
    and h: "rated seen L sch c k (snd sr)"
    and s: "step_batch E xy sr = Inr sr'"
  shows "rated seen L sch c (k + 1) (snd sr')"
proof -
  from step_batch_Inr [OF s] obtain l where st: "step E (fst sr) xy True (snd sr) = Inr (l, snd sr')"
    by blast
  from h have k: "0 \<le> k" and sc: "scheduled L sch c k (snd sr)"
    and log: "map (map g_lr) (groups_seen seen (snd sr)) = map (\<lambda>n. [L * sch (int n)]) [0..<nat k]"
    by (simp_all add: rated_def)
  from sc obtain opt g where o: "optimizer (snd sr) = Some opt" "param_groups opt = [g]"
    "g_lr g = L * sch k"
    by (auto simp: scheduled_def)
  from groups_seen_step [OF rec st o(1)] o log
  have "map (map g_lr) (groups_seen seen (snd sr'))
          = map (\<lambda>n. [L * sch (int n)]) [0..<nat k] @ [[L * sch k]]"
    by simp
  moreover from k have "[0..<nat (k + 1)] = [0..<nat k] @ [nat k]"
    by (simp add: nat_add_distrib)
  ultimately have "map (map g_lr) (groups_seen seen (snd sr'))
          = map (\<lambda>n. [L * sch (int n)]) [0..<nat (k + 1)]"
    using k by simp
  with scheduled_step [OF sc st] k show ?thesis
    by (simp add: rated_def)
qed

lemma rated_run_epoch:
  assumes rec: "recording E seen"
    and h: "rated seen L sch c k (snd sr)"
    and run: "run_epoch E cycle epoch sr = Inr sr'"
  shows "rated seen L sch c (k + int (length (dataloader c))) (snd sr')"
proof -
  from run obtain r1 sr2 r3 r4 where
    1: "set_phase_temperature epoch (snd sr) = Inr r1" and
    2: "for_each (dataloader (cfg r1)) (step_batch E) (fst sr, r1) = Inr sr2" and
    3: "maybe_estimate E epoch (snd sr2) = Inr r3" and
    4: "record_samples cycle epoch r3 = Inr r4" and
    5: "sr' = (fst sr2, r4)"
    by (auto simp: run_epoch_def split: sum.splits)
  from h scheduled_set_phase_temperature [OF _ 1] groups_seen_set_phase_temperature [OF 1, of seen]
  have h1: "rated seen L sch c k r1"
    by (simp add: rated_def)
  then have c1: "cfg r1 = c" by (simp add: rated_def scheduled_def)
  have "rated seen L sch c (k + 1 * int (length (dataloader (cfg r1)))) (snd sr2)"
  proof (rule for_each_count [where P = "\<lambda>k s. rated seen L sch c k (snd s)", OF _ _ 2])
    show "rated seen L sch c k (snd (fst sr, r1))" using h1 by simp
  next
    fix x s s' k
    assume "rated seen L sch c k (snd s)" "step_batch E x s = Inr s'"
    then show "rated seen L sch c (k + 1) (snd s')" by (rule rated_step_batch [OF rec])
  qed
  then have h2: "rated seen L sch c (k + int (length (dataloader c))) (snd sr2)"
    by (simp add: c1)
  from h2 scheduled_maybe_estimate [OF _ 3] groups_seen_maybe_estimate [OF rec 3]
  have h3: "rated seen L sch c (k + int (length (dataloader c))) r3"
    by (simp add: rated_def)
  from h3 scheduled_record_samples [OF _ 4] record_samples_frame [OF 4]
  have "rated seen L sch c (k + int (length (dataloader c))) r4"
    by (simp add: rated_def groups_seen_def)
  with 5 show ?thesis by simp
qed

lemma rated_run_cycle:
  assumes rec: "recording E seen"
    and h: "rated seen L sch c k r"
    and run: "run_cycle E cycle r = Inr r'"
  shows "rated seen L sch c (k + int (length (dataloader c)) * max 0 (epochs_per_cycle c)) r'"
proof -
  from h have c: "cfg r = c" by (simp add: rated_def scheduled_def)
  from run obtain sr where
    1: "for_each (py_range (epochs_per_cycle (cfg r))) (run_epoch E cycle) (0, r) = Inr sr"
    and 2: "r' = snd sr"
    by (auto simp: run_cycle_def split: sum.splits)
  have "rated seen L sch c
          (k + int (length (dataloader c)) * int (length (py_range (epochs_per_cycle (cfg r)))))
          (snd sr)"
  proof (rule for_each_count [where P = "\<lambda>k s. rated seen L sch c k (snd s)", OF _ _ 1])
    show "rated seen L sch c k (snd (0, r))" using h by simp
  next
    fix x s s' k
    assume "rated seen L sch c k (snd s)" "run_epoch E cycle x s = Inr s'"
    then show "rated seen L sch c (k + int (length (dataloader c))) (snd s')"
      by (rule rated_run_epoch [OF rec])
  qed
  with 2 c show ?thesis by simp
qed

lemma rated_cycles:
  assumes rec: "recording E seen"
    and h: "rated seen L sch c k r"
    and run: "for_each cs (run_cycle E) r = Inr r'"
  shows "rated seen L sch c
           (k + int (length (dataloader c)) * max 0 (epochs_per_cycle c) * int (length cs)) r'"
proof (rule for_each_count [where P = "rated seen L sch c", OF _ h run])
  fix x s s' k
  assume "rated seen L sch c k s" "run_cycle E x s = Inr s'"
  then show "rated seen L sch c (k + int (length (dataloader c)) * max 0 (epochs_per_cycle c)) s'"
    by (rule rated_run_cycle [OF rec])
qed

lemma rates_of_run:
  fixes E :: "('a::linordered_idom, 'b, 'o) collaborators"
  assumes rec: "recording E seen"
    and i: "init E mdl c w = Inr r"
    and run: "run E r = Inr rf"
  shows "map (map g_lr) (groups_seen seen rf)
     = map (\<lambda>n. [learning_rate c
                    * get_cosine_schedule E (int (length (dataloader c)) * epochs_per_cycle c) (int n)])
         [0..<length (dataloader c) * nat (epochs_per_cycle c) * nat (cycles c)]"
proof -
  from init_Inr_fields [OF i] have c: "cfg r = c" by simp
  from run_Inr [OF run] obtain r0 where 0: "run_setup E r = Inr r0"
    and 1: "for_each (py_range (cycles (cfg r))) (run_cycle E) r0 = Inr rf"
    by blast
  let ?B = "int (length (dataloader c))"
  from rated_cycles [OF rec rated_run_setup [OF rec 0] 1]
  have "rated seen (learning_rate c) (get_cosine_schedule E (?B * epochs_per_cycle c)) c
          (?B * max 0 (epochs_per_cycle c) * max 0 (cycles c)) rf"
    by (simp add: c)
  moreover have "nat (?B * max 0 (epochs_per_cycle c) * max 0 (cycles c))
      = length (dataloader c) * nat (epochs_per_cycle c) * nat (cycles c)"
  proof -
    have "nat (max 0 x) = nat x" for x :: int by simp
    then show ?thesis by (simp add: nat_mult_distrib)
  qed
  ultimately show ?thesis
    by (simp add: rated_def)
qed


lemma cosine_schedule_0 [simp]: "cosine_schedule T 0 = 1"
  by (simp add: cosine_schedule_def)

lemma cosine_schedule_2_1 [simp]: "cosine_schedule 2 1 = 1 / 2"
  by (simp add: cosine_schedule_def)





lemma cosine_schedule_2_2 [simp]: "cosine_schedule 2 2 = 1"
  by (simp add: cosine_schedule_def)



lemma flat_fresh_eq: "init (spy (toy cosine_schedule)) one_tensor (conf 2 0 2 1 1) None = Inr flat_fresh"
  by (simp add: flat_fresh_def spied_defs)

lemma flat_done_eq: "run (spy (toy cosine_schedule)) flat_fresh = Inr flat_done"
proof -
  have "\<exists>r. run (spy (toy cosine_schedule)) flat_fresh = Inr r"
    by (simp add: flat_fresh_def spied_defs)
  then show ?thesis by (auto simp: flat_done_def)
qed






section \<open>The temperature of the potential\<close>

lemma for_each_cong_inv:
  assumes "\<And>x s. I s \<Longrightarrow> body x s = body' x s"
    and "\<And>x s s'. I s \<Longrightarrow> body' x s = Inr s' \<Longrightarrow> I s'"
    and "I s"
  shows "for_each xs body s = for_each xs body' s"
  using assms(3)
proof (induction xs arbitrary: s)
  case Nil
  then show ?case by simp
next
  case (Cons x xs)
  show ?case
  proof (cases "body' x s")
    case (Inl e)
    with assms(1) [OF Cons.prems, of x] show ?thesis by simp
  next
    case (Inr s1)
    from assms(2) [OF Cons.prems Inr] have "I s1" .
    from Cons.IH [OF this] assms(1) [OF Cons.prems, of x] Inr show ?thesis by simp
  qed
qed

lemma at_temperature_fields [simp]:
  "potential_avg (at_temperature T D E) ps xy t dm = potential_avg E ps xy T D"
  "backward (at_temperature T D E) ps xy t dm k = backward E ps xy T D k"
  "sgld_init (at_temperature T D E) = sgld_init E"
  "sgld_data (at_temperature T D E) = sgld_data E"
  "sgld_state (at_temperature T D E) = sgld_state E"
  "estimate_preconditioner (at_temperature T D E) = estimate_preconditioner E"
  "preconditioner (at_temperature T D E) = preconditioner E"
  "est_temperature (at_temperature T D E) = est_temperature E"
  "est_config_temp (at_temperature T D E) = est_config_temp E"
  "get_cosine_schedule (at_temperature T D E) = get_cosine_schedule E"
  by (simp_all add: at_temperature_def)

lemma at_temperature_step:
  assumes "temperature (cfg r) = T" and "data_mult (cfg r) = D"
  shows "step (at_temperature T D E) i xy d r = step E i xy d r"
proof -
  have g: "grads_at_optimizer_step (at_temperature T D E) xy r = grads_at_optimizer_step E xy r"
    by (simp add: grads_at_optimizer_step_def backward_all_def assms)
  have o: "optimizer_step (at_temperature T D E) = optimizer_step E"
    by (simp add: optimizer_step_def fun_eq_iff)
  have "log_param_metrics (at_temperature T D E) = log_param_metrics E"
    by (simp add: log_param_metrics_def fun_eq_iff)
  then have l: "log_step (at_temperature T D E) = log_step E"
    by (intro ext) (simp only: log_step_def)
  show ?thesis
    unfolding step_def g o l at_temperature_fields assms ..
qed

lemma at_temperature_run_epoch:
  fixes E :: "('a::linordered_idom, 'b, 'o) collaborators"
  assumes "temperature (cfg (snd sr)) = T" and "data_mult (cfg (snd sr)) = D"
  shows "run_epoch (at_temperature T D E) cycle epoch sr = run_epoch E cycle epoch sr"
proof (cases "set_phase_temperature epoch (snd sr)")
  case (Inl e)
  then show ?thesis by (simp add: run_epoch_def)
next
  case (Inr r1)
  from set_phase_temperature_Inr [OF Inr] assms
  have c1: "temperature (cfg r1) = T \<and> data_mult (cfg r1) = D" by auto
  let ?I = "\<lambda>s. temperature (cfg (snd s)) = T \<and> data_mult (cfg (snd s)) = D"
  have b: "for_each bs (step_batch (at_temperature T D E)) (i, r1)
      = for_each bs (step_batch E) (i, r1)" for bs i
  proof (rule for_each_cong_inv [where I = ?I])
    show "?I (i, r1)" using c1 by simp
  next
    fix x and s :: "int \<times> ('a, 'b, 'o) runner"
    assume "?I s"
    then show "step_batch (at_temperature T D E) x s = step_batch E x s"
      by (simp add: step_batch_def at_temperature_step)
  next
    fix x and s s' :: "int \<times> ('a, 'b, 'o) runner"
    assume i: "?I s" and "step_batch E x s = Inr s'"
    from step_batch_Inr [OF this(2)] obtain l where "step E (fst s) x True (snd s) = Inr (l, snd s')"
      by blast
    from step_preserves(1) [OF this] i show "?I s'" by simp
  qed
  have m: "maybe_estimate (at_temperature T D E) = maybe_estimate E"
    by (intro ext, unfold maybe_estimate_def at_temperature_fields, rule refl)
  show ?thesis
    unfolding run_epoch_def Inr sum.case b m ..
qed

lemma run_epoch_cfg:
  assumes "run_epoch E cycle epoch sr = Inr sr'"
  shows "cfg (snd sr') = cfg (snd sr)"
proof -
  from assms obtain r1 sr2 r3 r4 where
    1: "set_phase_temperature epoch (snd sr) = Inr r1" and
    2: "for_each (dataloader (cfg r1)) (step_batch E) (fst sr, r1) = Inr sr2" and
    3: "maybe_estimate E epoch (snd sr2) = Inr r3" and
    4: "record_samples cycle epoch r3 = Inr r4" and
    5: "sr' = (fst sr2, r4)"
    by (auto simp: run_epoch_def split: sum.splits)
  from set_phase_temperature_Inr [OF 1] have "cfg r1 = cfg (snd sr)" by auto
  moreover from batches_preserve [of "dataloader (cfg r1)" E "fst sr" r1 "fst sr2" "snd sr2"] 2
  have "cfg (snd sr2) = cfg r1" by simp
  moreover from 3 have "cfg r3 = cfg (snd sr2)"
    by (auto simp: maybe_estimate_def split: option.splits if_splits)
  moreover from record_samples_frame [OF 4] have "cfg r4 = cfg r3" by simp
  ultimately show ?thesis using 5 by simp
qed

lemma at_temperature_run_cycle:
  fixes E :: "('a::linordered_idom, 'b, 'o) collaborators"
  assumes "temperature (cfg r) = T" and "data_mult (cfg r) = D"
  shows "run_cycle (at_temperature T D E) cycle r = run_cycle E cycle r"
proof -
  let ?I = "\<lambda>s. temperature (cfg (snd s)) = T \<and> data_mult (cfg (snd s)) = D"
  have "for_each es (run_epoch (at_temperature T D E) cycle) (0, r)
      = for_each es (run_epoch E cycle) (0, r)" for es
  proof (rule for_each_cong_inv [where I = ?I])
    show "?I (0, r)" using assms by simp
  next
    fix x and s :: "int \<times> ('a, 'b, 'o) runner"
    assume "?I s"
    then show "run_epoch (at_temperature T D E) cycle x s = run_epoch E cycle x s"
      by (simp add: at_temperature_run_epoch)
  next
    fix x and s s' :: "int \<times> ('a, 'b, 'o) runner"
    assume "?I s" and "run_epoch E cycle x s = Inr s'"
    with run_epoch_cfg [of E cycle x s s'] show "?I s'" by simp
  qed
  then show ?thesis by (simp add: run_cycle_def)
qed

lemma run_cycle_cfg:
  assumes "run_cycle E cycle r = Inr r'"
  shows "cfg r' = cfg r"
proof -
  from assms obtain sr where
    1: "for_each (py_range (epochs_per_cycle (cfg r))) (run_epoch E cycle) (0, r) = Inr sr"
    and 2: "r' = snd sr"
    by (auto simp: run_cycle_def split: sum.splits)
  have "cfg (snd sr) = cfg r"
  proof (rule for_each_invariant [where P = "\<lambda>s. cfg (snd s) = cfg r", OF _ _ 1])
    show "cfg (snd (0, r)) = cfg r" by simp
  next
    fix x s s'
    assume "cfg (snd s) = cfg r" and "run_epoch E cycle x s = Inr s'"
    with run_epoch_cfg [of E cycle x s s'] show "cfg (snd s') = cfg r" by simp
  qed
  with 2 show ?thesis by simp
qed

lemma at_temperature_run:
  fixes E :: "('a::linordered_idom, 'b, 'o) collaborators"
  shows "run (at_temperature (temperature (cfg r)) (data_mult (cfg r)) E) r = run E r"
proof -
  let ?T = "temperature (cfg r)" and ?D = "data_mult (cfg r)"
  have s: "run_setup (at_temperature ?T ?D E) r = run_setup E r"
    unfolding run_setup_def at_temperature_fields ..
  show ?thesis
  proof (cases "run_setup E r")
    case (Inl e)
    with s show ?thesis by (simp add: run_def)
  next
    case (Inr r0)
    then have c0: "cfg r0 = cfg r"
      by (auto simp: run_setup_def Let_def split: list.splits)
    let ?I = "\<lambda>s. temperature (cfg s) = ?T \<and> data_mult (cfg s) = ?D"
    have "for_each cs (run_cycle (at_temperature ?T ?D E)) r0 = for_each cs (run_cycle E) r0" for cs
    proof (rule for_each_cong_inv [where I = ?I])
      show "?I r0" using c0 by simp
    next
      fix x and s :: "('a, 'b, 'o) runner"
      assume "?I s"
      then show "run_cycle (at_temperature ?T ?D E) x s = run_cycle E x s"
        by (simp add: at_temperature_run_cycle)
    next
      fix x and s s' :: "('a, 'b, 'o) runner"
      assume "?I s" and "run_cycle E x s = Inr s'"
      with run_cycle_cfg [of E x s s'] show "?I s'" by simp
    qed
    with s Inr show ?thesis by (simp add: run_def)
  qed
qed

lemma losses_step_batch:
  fixes E :: "('a::linordered_idom, 'b, 'o) collaborators"
  assumes "int (length (series (snd sr) ''loss'')) = k"
    and "step_batch E xy sr = Inr sr'"
  shows "int (length (series (snd sr') ''loss'')) = k + 1"
proof -
  from step_batch_Inr [OF assms(2)] obtain l where "step E (fst sr) xy True (snd sr) = Inr (l, snd sr')"
    by blast
  from step_loss_series [OF this] assms(1) show ?thesis by simp
qed

lemma losses_run_epoch:
  fixes E :: "('a::linordered_idom, 'b, 'o) collaborators"
  assumes h: "cfg (snd sr) = c \<and> int (length (series (snd sr) ''loss'')) = k"
    and run: "run_epoch E cycle epoch sr = Inr sr'"
  shows "cfg (snd sr') = c
     \<and> int (length (series (snd sr') ''loss'')) = k + int (length (dataloader c))"
proof -
  from run obtain r1 sr2 r3 r4 where
    1: "set_phase_temperature epoch (snd sr) = Inr r1" and
    2: "for_each (dataloader (cfg r1)) (step_batch E) (fst sr, r1) = Inr sr2" and
    3: "maybe_estimate E epoch (snd sr2) = Inr r3" and
    4: "record_samples cycle epoch r3 = Inr r4" and
    5: "sr' = (fst sr2, r4)"
    by (auto simp: run_epoch_def split: sum.splits)
  from set_phase_temperature_Inr [OF 1] h
  have h1: "cfg r1 = c" "int (length (series r1 ''loss'')) = k" by auto
  have "int (length (series (snd sr2) ''loss'')) = k + 1 * int (length (dataloader (cfg r1)))"
  proof (rule for_each_count [where P = "\<lambda>k s. int (length (series (snd s) ''loss'')) = k", OF _ _ 2])
    show "int (length (series (snd (fst sr, r1)) ''loss'')) = k" using h1 by simp
  next
    fix x and s s' :: "int \<times> ('a, 'b, 'o) runner" and k
    assume "int (length (series (snd s) ''loss'')) = k" "step_batch E x s = Inr s'"
    then show "int (length (series (snd s') ''loss'')) = k + 1" by (rule losses_step_batch)
  qed
  with h1 have h2: "int (length (series (snd sr2) ''loss'')) = k + int (length (dataloader c))"
    by simp
  from 3 have "series r3 = series (snd sr2)"
    by (auto simp: maybe_estimate_def split: option.splits if_splits)
  moreover from record_samples_frame [OF 4] have "series r4 = series r3"
    by (simp add: series_def fun_eq_iff)
  ultimately have "int (length (series r4 ''loss'')) = k + int (length (dataloader c))"
    using h2 by simp
  with run_epoch_cfg [OF run] h 5 show ?thesis by simp
qed

lemma losses_run_cycle:
  fixes E :: "('a::linordered_idom, 'b, 'o) collaborators"
  assumes h: "cfg r = c \<and> int (length (series r ''loss'')) = k"
    and run: "run_cycle E cycle r = Inr r'"
  shows "cfg r' = c
     \<and> int (length (series r' ''loss''))
         = k + int (length (dataloader c)) * max 0 (epochs_per_cycle c)"
proof -
  from run obtain sr where
    1: "for_each (py_range (epochs_per_cycle (cfg r))) (run_epoch E cycle) (0, r) = Inr sr"
    and 2: "r' = snd sr"
    by (auto simp: run_cycle_def split: sum.splits)
  let ?P = "\<lambda>k s. cfg (snd s) = c \<and> int (length (series (snd s) ''loss'')) = k"
  have "?P (k + int (length (dataloader c)) * int (length (py_range (epochs_per_cycle (cfg r))))) sr"
  proof (rule for_each_count [where P = ?P, OF _ _ 1])
    show "?P k (0, r)" using h by simp
  next
    fix x and s s' :: "int \<times> ('a, 'b, 'o) runner" and k
    assume "?P k s" "run_epoch E cycle x s = Inr s'"
    then show "?P (k + int (length (dataloader c))) s'" by (rule losses_run_epoch)
  qed
  with 2 h show ?thesis by simp
qed

lemma losses_run:
  fixes E :: "('a::linordered_idom, 'b, 'o) collaborators"
  assumes "run E r = Inr rf"
  shows "cfg rf = cfg r
     \<and> length (series rf ''loss'')
         = length (series r ''loss'')
           + length (dataloader (cfg r)) * nat (epochs_per_cycle (cfg r)) * nat (cycles (cfg r))"
proof -
  let ?c = "cfg r"
  let ?k = "int (length (series r ''loss''))"
  let ?B = "int (length (dataloader ?c))"
  from run_Inr [OF assms] obtain r0 where 0: "run_setup E r = Inr r0" and c0: "cfg r0 = ?c"
    and 1: "for_each (py_range (cycles ?c)) (run_cycle E) r0 = Inr rf"
    by blast
  from 0 have "series r0 = series r"
    by (auto simp: run_setup_def Let_def series_def fun_eq_iff split: list.splits)
  with c0 have h0: "cfg r0 = ?c \<and> int (length (series r0 ''loss'')) = ?k" by simp
  let ?P = "\<lambda>k s. cfg s = ?c \<and> int (length (series s ''loss'')) = k"
  have "?P (?k + ?B * max 0 (epochs_per_cycle ?c) * int (length (py_range (cycles ?c)))) rf"
  proof (rule for_each_count [where P = ?P, OF _ h0 1])
    fix x and s s' :: "('a, 'b, 'o) runner" and k
    assume "?P k s" "run_cycle E x s = Inr s'"
    then show "?P (k + ?B * max 0 (epochs_per_cycle ?c)) s'" by (rule losses_run_cycle)
  qed
  then have c: "cfg rf = ?c"
    and "int (length (series rf ''loss''))
       = ?k + ?B * max 0 (epochs_per_cycle ?c) * max 0 (cycles ?c)"
    by simp_all
  moreover have "?B * max 0 (epochs_per_cycle ?c) * max 0 (cycles ?c)
      = int (length (dataloader ?c) * nat (epochs_per_cycle ?c) * nat (cycles ?c))"
    by simp
  ultimately have "int (length (series rf ''loss''))
      = int (length (series r ''loss'')
             + length (dataloader ?c) * nat (epochs_per_cycle ?c) * nat (cycles ?c))"
    by simp
  then have "length (series rf ''loss'')
      = length (series r ''loss'')
        + length (dataloader ?c) * nat (epochs_per_cycle ?c) * nat (cycles ?c)"
    by (simp only: int_int_eq)
  with c show ?thesis by simp
qed

text \<open>
  Claim C10. The run is the run of the collaborators whose potential and gradient
  disregard the temperature they are called with and use the configured one: no step of
  the run, of a descent epoch or of another, evaluates or differentiates the potential at
  another temperature. A run that returns leaves the configuration as it was and has
  logged one loss per batch of every epoch of every cycle. Every step that returns has
  evaluated the potential at the configured temperature, logs that loss, hands the
  sampler the tensors with the clamped gradient of the potential at the configured
  temperature, and leaves the configuration unchanged, whatever temperature the groups
  hold. Setting the phase temperature changes the temperature field of the param groups
  and nothing else of the runner.
\<close>

theorem loss_uses_configured_temperature:
  fixes E :: "('a::linordered_idom, 'b, 'o) collaborators" and r :: "('a, 'b, 'o) runner"
  shows "run (at_temperature (temperature (cfg r)) (data_mult (cfg r)) E) r = run E r
     \<and> (\<forall>rf. run E r = Inr rf \<longrightarrow>
           cfg rf = cfg r
         \<and> length (series rf ''loss'')
             = length (series r ''loss'')
               + length (dataloader (cfg r)) * nat (epochs_per_cycle (cfg r)) * nat (cycles (cfg r)))
     \<and> (\<forall>i xy d l r' opt. step E i xy d r = Inr (l, r') \<longrightarrow> optimizer r = Some opt \<longrightarrow>
           l = potential_avg E (model r) xy (temperature (cfg r)) (data_mult (cfg r))
         \<and> series r' ''loss'' = series r ''loss'' @ [l]
         \<and> (\<forall>k < length (model r).
               p_grad (grads_at_optimizer_step E xy r ! k)
                 = map (clamp (- grad_max (cfg r)) (grad_max (cfg r)))
                     (backward E (model r) xy (temperature (cfg r)) (data_mult (cfg r)) k))
         \<and> model r' = snd (optimizer_step E opt (grads_at_optimizer_step E xy r))
         \<and> (\<exists>opt'. optimizer r' = Some opt'
               \<and> opt_state opt' = sgld_state E (param_groups opt) (opt_state opt)
                                     (grads_at_optimizer_step E xy r))
         \<and> cfg r' = cfg r)
     \<and> (\<forall>epoch r1 opt. set_phase_temperature epoch r = Inr r1 \<longrightarrow> optimizer r = Some opt \<longrightarrow>
           r1 = r\<lparr>optimizer := Some (opt\<lparr>param_groups :=
                  map (\<lambda>g. g\<lparr>g_temperature :=
                               (if epoch < descent_epochs r then 0 else temperature (cfg r))\<rparr>)
                    (param_groups opt)\<rparr>)\<rparr>)"
proof (intro conjI allI impI)
  show "run (at_temperature (temperature (cfg r)) (data_mult (cfg r)) E) r = run E r"
    by (rule at_temperature_run)
  show "cfg rf = cfg r" "length (series rf ''loss'')
             = length (series r ''loss'')
               + length (dataloader (cfg r)) * nat (epochs_per_cycle (cfg r)) * nat (cycles (cfg r))"
    if "run E r = Inr rf" for rf
    using losses_run [OF that] by simp_all
  show "r1 = r\<lparr>optimizer := Some (opt\<lparr>param_groups :=
                  map (\<lambda>g. g\<lparr>g_temperature :=
                               (if epoch < descent_epochs r then 0 else temperature (cfg r))\<rparr>)
                    (param_groups opt)\<rparr>)\<rparr>"
    if "set_phase_temperature epoch r = Inr r1" "optimizer r = Some opt" for epoch r1 opt
    using set_phase_temperature_Inr [OF that(1)] that(2) by auto
  fix i xy d l r' opt
  assume s: "step E i xy d r = Inr (l, r')" and o: "optimizer r = Some opt"
  from step_preserves(8) [OF s]
  show "l = potential_avg E (model r) xy (temperature (cfg r)) (data_mult (cfg r))" .
  from step_loss_series [OF s] show "series r' ''loss'' = series r ''loss'' @ [l]" .
  show "p_grad (grads_at_optimizer_step E xy r ! k)
          = map (clamp (- grad_max (cfg r)) (grad_max (cfg r)))
              (backward E (model r) xy (temperature (cfg r)) (data_mult (cfg r)) k)"
    if "k < length (model r)" for k
    using that by (rule grads_at_optimizer_step_nth)
  from step_preserves(9) [OF s] o
  show "model r' = snd (optimizer_step E opt (grads_at_optimizer_step E xy r))" by simp
  from step_opt_state [OF s] o
  show "\<exists>opt'. optimizer r' = Some opt'
          \<and> opt_state opt' = sgld_state E (param_groups opt) (opt_state opt)
                                (grads_at_optimizer_step E xy r)"
    by auto
  from step_preserves(1) [OF s] show "cfg r' = cfg r" .
qed

lemma finished_eq: "run (toy linear_schedule) fresh = Inr finished"
proof -
  have "\<exists>r. run (toy linear_schedule) fresh = Inr r"
    by (simp add: fresh_def run_defs)
  then show ?thesis by (auto simp: finished_def)
qed

text \<open>The scenario's run, its second step, which belongs to a descent epoch, and the
  switch of its first epoch.\<close>

theorem loss_uses_configured_temperature_witness:
  "run (toy linear_schedule) fresh = Inr finished
   \<and> run (at_temperature (temperature (cfg fresh)) (data_mult (cfg fresh)) (toy linear_schedule)) fresh
        = Inr finished
   \<and> cfg finished = cfg fresh
   \<and> length (series finished ''loss'') = 10
   \<and> optimizer stepped = Some \<lparr>param_groups = [\<lparr>g_lr = 9, g_temperature = 0, g_momentum = 0, g_num_data = 1\<rparr>], opt_state = 1\<rparr>
   \<and> temperature (cfg stepped) = 1
   \<and> step (toy linear_schedule) 1 () True stepped = Inr (- 1, stepped_twice)
   \<and> potential_avg (toy linear_schedule) (model stepped) () (temperature (cfg stepped)) (data_mult (cfg stepped)) = - 1
   \<and> potential_avg (toy linear_schedule) (model stepped) () 0 (data_mult (cfg stepped)) = 0
   \<and> series stepped_twice ''loss'' = [- 1, - 1]
   \<and> optimizer stepped_twice = Some \<lparr>param_groups = [\<lparr>g_lr = 8, g_temperature = 0, g_momentum = 0, g_num_data = 1\<rparr>], opt_state = 2\<rparr>
   \<and> set_phase_temperature 0 ready = Inr descending
   \<and> descending = ready\<lparr>optimizer := Some \<lparr>param_groups = [\<lparr>g_lr = 10, g_temperature = 0, g_momentum = 0, g_num_data = 1\<rparr>], opt_state = 0\<rparr>\<rparr>"
proof -
  let ?E = "toy linear_schedule"
  have f: "cfg fresh = conf 10 3 5 1 1" "series fresh ''loss'' = []"
    using init_Inr_fields [OF fresh_eq] by (simp_all add: series_def)
  note a = loss_uses_configured_temperature [of fresh ?E]
  from a finished_eq
  have 1: "run (at_temperature (temperature (cfg fresh)) (data_mult (cfg fresh)) ?E) fresh = Inr finished"
    by simp
  from a finished_eq have 2: "cfg finished = cfg fresh" "length (series finished ''loss'') = 10"
    by (simp_all add: f conf_def)
  note b = loss_uses_configured_temperature [of stepped ?E]
  let ?opt = "\<lparr>param_groups = [\<lparr>g_lr = 9, g_temperature = 0, g_momentum = 0, g_num_data = 1\<rparr>], opt_state = 1\<rparr>
                :: (int, nat) sgld"
  have o: "optimizer stepped = Some ?opt" by (rule stepped_fields)
  from b stepped_twice_eq o
  have 3: "- 1 = potential_avg ?E (model stepped) () (temperature (cfg stepped)) (data_mult (cfg stepped))"
    and 4: "series stepped_twice ''loss'' = series stepped ''loss'' @ [- 1]"
    and 5: "\<exists>opt'. optimizer stepped_twice = Some opt'
         \<and> opt_state opt' = sgld_state ?E (param_groups ?opt) (opt_state ?opt)
                               (grads_at_optimizer_step ?E () stepped)"
    by blast+
  have 6: "potential_avg ?E (model stepped) () 0 (data_mult (cfg stepped)) = 0"
    by (simp add: toy_def)
  have 7: "optimizer stepped_twice = Some \<lparr>param_groups = [\<lparr>g_lr = 8, g_temperature = 0, g_momentum = 0, g_num_data = 1\<rparr>], opt_state = 2\<rparr>"
    by (simp add: stepped_twice_def stepped_def descending_def ready_def fresh_def eval_defs)
  note c = loss_uses_configured_temperature [of ready ?E]
  note sw = c [THEN conjunct2, THEN conjunct2, THEN conjunct2, rule_format,
      OF descending_eq ready_fields(4)]
  from sw
  have 8: "descending = ready\<lparr>optimizer := Some \<lparr>param_groups = [\<lparr>g_lr = 10, g_temperature = 0, g_momentum = 0, g_num_data = 1\<rparr>], opt_state = 0\<rparr>\<rparr>"
    by (simp add: ready_fields)
  from 1 2 3 4 6 7 8 o finished_eq stepped_twice_eq descending_eq show ?thesis
    by (simp add: stepped_fields conf_def)
qed

section \<open>The flag \<^verbatim>\<open>sampling_decay\<close>\<close>

lemma for_each_commute:
  assumes "\<And>x s. body x (f s) = map_sum id f (body x s)"
  shows "for_each xs body (f s) = map_sum id f (for_each xs body s)"
proof (induction xs arbitrary: s)
  case Nil
  then show ?case by simp
next
  case (Cons x xs)
  show ?case
  proof (cases "body x s")
    case (Inl e)
    with assms [of x s] show ?thesis by simp
  next
    case (Inr s1)
    with assms [of x s] Cons.IH [of s1] show ?thesis by simp
  qed
qed

lemma wsd_add_scalar [simp]:
  "add_scalar n v i (with_sampling_decay b r) = with_sampling_decay b (add_scalar n v i r)"
  by (rule runner.equality) (simp_all add: add_scalar_def with_sampling_decay_def split: option.splits)

lemma wsd_fields [simp]:
  "model (with_sampling_decay b r) = model r"
  "optimizer (with_sampling_decay b r) = optimizer r"
  "scheduler (with_sampling_decay b r) = scheduler r"
  "prev_loss (with_sampling_decay b r) = prev_loss r"
  "param_names (with_sampling_decay b r) = param_names r"
  "samples (with_sampling_decay b r) = samples r"
  "metrics (with_sampling_decay b r) = metrics r"
  "summary_writer (with_sampling_decay b r) = summary_writer r"
  "descent_epochs (with_sampling_decay b r) = descent_epochs r"
  "num_samples (with_sampling_decay b r) = num_samples r"
  "temperature (cfg (with_sampling_decay b r)) = temperature (cfg r)"
  "data_mult (cfg (with_sampling_decay b r)) = data_mult (cfg r)"
  "grad_max (cfg (with_sampling_decay b r)) = grad_max (cfg r)"
  "dataloader (cfg (with_sampling_decay b r)) = dataloader (cfg r)"
  "dataset_len (cfg (with_sampling_decay b r)) = dataset_len (cfg r)"
  "epochs_per_cycle (cfg (with_sampling_decay b r)) = epochs_per_cycle (cfg r)"
  "warmup_epochs (cfg (with_sampling_decay b r)) = warmup_epochs (cfg r)"
  "skip (cfg (with_sampling_decay b r)) = skip (cfg r)"
  "cycles (cfg (with_sampling_decay b r)) = cycles (cfg r)"
  "precond_update (cfg (with_sampling_decay b r)) = precond_update (cfg r)"
  "learning_rate (cfg (with_sampling_decay b r)) = learning_rate (cfg r)"
  "momentum (cfg (with_sampling_decay b r)) = momentum (cfg r)"
  by (simp_all add: with_sampling_decay_def)

lemma wsd_updates [simp]:
  "(with_sampling_decay b r)\<lparr>metrics := M\<rparr> = with_sampling_decay b (r\<lparr>metrics := M\<rparr>)"
  "(with_sampling_decay b r)\<lparr>summary_writer := W\<rparr> = with_sampling_decay b (r\<lparr>summary_writer := W\<rparr>)"
  "(with_sampling_decay b r)\<lparr>model := m\<rparr> = with_sampling_decay b (r\<lparr>model := m\<rparr>)"
  "(with_sampling_decay b r)\<lparr>optimizer := opt\<rparr> = with_sampling_decay b (r\<lparr>optimizer := opt\<rparr>)"
  "(with_sampling_decay b r)\<lparr>scheduler := sc\<rparr> = with_sampling_decay b (r\<lparr>scheduler := sc\<rparr>)"
  "(with_sampling_decay b r)\<lparr>prev_loss := pl\<rparr> = with_sampling_decay b (r\<lparr>prev_loss := pl\<rparr>)"
  "(with_sampling_decay b r)\<lparr>samples := sm\<rparr> = with_sampling_decay b (r\<lparr>samples := sm\<rparr>)"
  "(with_sampling_decay b r)\<lparr>param_names := ns\<rparr> = with_sampling_decay b (r\<lparr>param_names := ns\<rparr>)"
  by (simp_all add: with_sampling_decay_def)

lemma wsd_log_param_metrics [simp]:
  "log_param_metrics E i st kns (with_sampling_decay b r)
     = with_sampling_decay b (log_param_metrics E i st kns r)"
  by (induction kns arbitrary: r) (auto simp: log_param_metrics_def)

lemma wsd_log_step:
  "log_step E i l (with_sampling_decay b r)
     = map_sum id (map_prod id (with_sampling_decay b)) (log_step E i l r)"
  by (simp add: log_step_def Let_def split: option.splits list.splits)

lemma wsd_scheduler_step:
  "scheduler_step (with_sampling_decay b r) = map_sum id (with_sampling_decay b) (scheduler_step r)"
  by (simp add: scheduler_step_def Let_def split: option.splits)

lemma wsd_grads [simp]:
  "grads_at_optimizer_step E xy (with_sampling_decay b r) = grads_at_optimizer_step E xy r"
  by (simp add: grads_at_optimizer_step_def backward_all_def)

lemma wsd_step:
  "step E i xy d (with_sampling_decay b r)
     = map_sum id (map_prod id (with_sampling_decay b)) (step E i xy d r)"
proof (cases "optimizer r")
  case None
  then show ?thesis by (simp add: step_def)
next
  case (Some opt)
  show ?thesis
  proof (cases "param_groups opt")
    case Nil
    with Some show ?thesis by (simp add: step_def)
  next
    case (Cons g0 gs)
    let ?r1 = "r\<lparr>model := snd (optimizer_step E opt (grads_at_optimizer_step E xy r)),
                  optimizer := Some (fst (optimizer_step E opt (grads_at_optimizer_step E xy r)))\<rparr>"
    show ?thesis
    proof (cases "if d then scheduler_step ?r1 else Inr ?r1")
      case (Inl e)
      then have "(if d then scheduler_step (with_sampling_decay b ?r1) else Inr (with_sampling_decay b ?r1)) = Inl e"
        by (auto simp: wsd_scheduler_step split: if_splits)
      with Inl Some Cons show ?thesis by (simp add: step_def Let_def)
    next
      case (Inr r2)
      then have "(if d then scheduler_step (with_sampling_decay b ?r1) else Inr (with_sampling_decay b ?r1))
                   = Inr (with_sampling_decay b r2)"
        by (auto simp: wsd_scheduler_step split: if_splits)
      with Inr Some Cons show ?thesis by (simp add: step_def Let_def wsd_log_step)
    qed
  qed
qed

lemma wsd_step_batch:
  "step_batch E xy (map_prod id (with_sampling_decay b) sr)
     = map_sum id (map_prod id (with_sampling_decay b)) (step_batch E xy sr)"
  by (cases "step E (fst sr) xy True (snd sr)") (auto simp: step_batch_def wsd_step)

lemma wsd_set_phase_temperature:
  "set_phase_temperature epoch (with_sampling_decay b r)
     = map_sum id (with_sampling_decay b) (set_phase_temperature epoch r)"
  by (simp add: set_phase_temperature_def split: option.splits)

lemma wsd_maybe_estimate:
  "maybe_estimate E epoch (with_sampling_decay b r)
     = map_sum id (with_sampling_decay b) (maybe_estimate E epoch r)"
  by (simp add: maybe_estimate_def split: option.splits)

lemma wsd_write_sample:
  "write_sample key idx v (with_sampling_decay b r)
     = map_sum id (with_sampling_decay b) (write_sample key idx v r)"
  by (simp add: write_sample_def split: option.splits sum.splits)

lemma wsd_record_samples:
  "record_samples cycle epoch (with_sampling_decay b r)
     = map_sum id (with_sampling_decay b) (record_samples cycle epoch r)"
proof -
  have loop: "for_each ps (\<lambda>p. write_sample (p_name p @ ''.p'') idx (p_data p)) (with_sampling_decay b r)
      = map_sum id (with_sampling_decay b)
          (for_each ps (\<lambda>p. write_sample (p_name p @ ''.p'') idx (p_data p)) r)" for ps idx
    by (rule for_each_commute) (rule wsd_write_sample)
  show ?thesis
    unfolding record_samples_def Let_def wsd_fields loop
    by (simp add: wsd_write_sample split: sum.splits option.splits list.splits)
qed

lemma wsd_run_epoch:
  "run_epoch E cycle epoch (map_prod id (with_sampling_decay b) sr)
     = map_sum id (map_prod id (with_sampling_decay b)) (run_epoch E cycle epoch sr)"
proof -
  have loop: "for_each bs (step_batch E) (map_prod id (with_sampling_decay b) s)
      = map_sum id (map_prod id (with_sampling_decay b)) (for_each bs (step_batch E) s)" for bs s
    by (rule for_each_commute) (rule wsd_step_batch)
  have loop': "for_each bs (step_batch E) (i, with_sampling_decay b r1)
      = map_sum id (map_prod id (with_sampling_decay b)) (for_each bs (step_batch E) (i, r1))" for bs i r1
    using loop [of bs "(i, r1)"] by simp
  show ?thesis
    unfolding run_epoch_def
    by (simp add: wsd_set_phase_temperature wsd_maybe_estimate wsd_record_samples loop'
        split: sum.splits)
qed

lemma wsd_run_cycle:
  "run_cycle E cycle (with_sampling_decay b r)
     = map_sum id (with_sampling_decay b) (run_cycle E cycle r)"
proof -
  have loop: "for_each es (run_epoch E cycle) (map_prod id (with_sampling_decay b) s)
      = map_sum id (map_prod id (with_sampling_decay b)) (for_each es (run_epoch E cycle) s)" for es s
    by (rule for_each_commute) (rule wsd_run_epoch)
  have loop': "for_each es (run_epoch E cycle) (0, with_sampling_decay b r)
      = map_sum id (map_prod id (with_sampling_decay b)) (for_each es (run_epoch E cycle) (0, r))" for es
    using loop [of es "(0, r)"] by simp
  show ?thesis
    unfolding run_cycle_def
    by (simp add: loop' split: sum.splits)
qed

lemma wsd_run_setup:
  "run_setup E (with_sampling_decay b r) = map_sum id (with_sampling_decay b) (run_setup E r)"
  by (simp add: run_setup_def Let_def split: list.splits)

lemma wsd_run:
  "run E (with_sampling_decay b r) = map_sum id (with_sampling_decay b) (run E r)"
proof (cases "run_setup E r")
  case (Inl e)
  then show ?thesis by (simp add: run_def wsd_run_setup)
next
  case (Inr r0)
  have loop: "for_each cs (run_cycle E) (with_sampling_decay b s)
      = map_sum id (with_sampling_decay b) (for_each cs (run_cycle E) s)" for cs s
    by (rule for_each_commute) (rule wsd_run_cycle)
  from Inr have "cycles (cfg r0) = cycles (cfg r)"
    by (auto simp: run_setup_def Let_def split: list.splits)
  with Inr show ?thesis
    by (simp add: run_def wsd_run_setup loop)
qed

lemma flat_still_eq:
  "init (spy (toy cosine_schedule)) one_tensor ((conf 2 0 2 1 1)\<lparr>sampling_decay := False\<rparr>) None
     = Inr (with_sampling_decay False flat_fresh)"
  by (simp add: flat_fresh_def with_sampling_decay_def spied_defs)

text \<open>
  Claim C3. \<^verbatim>\<open>run\<close> never reads \<^verbatim>\<open>self.sampling_decay\<close>: a run from a runner with the flag
  set to any value \<open>b\<close> is the run from the same runner with its own flag, up to the flag
  itself. So with \<^verbatim>\<open>sampling_decay=False\<close> the rate is not held constant: in the run of
  two sampling epochs with the cosine schedule, the sampler finds the rate 1 in the first
  sampling epoch and 1/2 in the second.
\<close>

theorem sampling_decay_is_ignored:
  "run E (with_sampling_decay b r) = map_sum id (with_sampling_decay b) (run E r)
   \<and> init (spy (toy cosine_schedule)) one_tensor ((conf 2 0 2 1 1)\<lparr>sampling_decay := False\<rparr>) None
        = Inr (with_sampling_decay False flat_fresh)
   \<and> \<not> sampling_decay (cfg (with_sampling_decay False flat_fresh))
   \<and> first_sampling_epoch (with_sampling_decay False flat_fresh) = 0
   \<and> run (spy (toy cosine_schedule)) (with_sampling_decay False flat_fresh)
        = Inr (with_sampling_decay False flat_done)
   \<and> map (map g_lr) (groups_seen snd (with_sampling_decay False flat_done)) = [[1], [1 / 2]]"
proof -
  have 1: "run (spy (toy cosine_schedule)) (with_sampling_decay False flat_fresh)
        = Inr (with_sampling_decay False flat_done)"
    by (simp add: wsd_run flat_done_eq)
  from init_Inr_fields [OF flat_fresh_eq]
  have 2: "first_sampling_epoch (with_sampling_decay False flat_fresh) = 0"
    by (simp add: first_sampling_epoch_def conf_def)
  from rates_of_run [OF recording_spy flat_still_eq 1]
  have 3: "map (map g_lr) (groups_seen snd (with_sampling_decay False flat_done)) = [[1], [1 / 2]]"
    by (simp add: conf_def spy_def toy_def upt_rec)
  have 4: "\<not> sampling_decay (cfg (with_sampling_decay False flat_fresh))"
    by (simp add: with_sampling_decay_def)
  have "run E (with_sampling_decay b r) = map_sum id (with_sampling_decay b) (run E r)"
    by (rule wsd_run)
  with 1 2 3 4 flat_still_eq show ?thesis
    by (intro conjI)
qed

section \<open>The sample buffer\<close>

lemma strided_eq: "init (toy linear_schedule) one_tensor (conf 10 3 5 2 1) None = Inr strided"
  by (simp add: strided_def eval_defs)

lemma strided_run: "run (toy linear_schedule) strided = Inl IndexError"
  by (simp add: strided_def run_defs)

lemma strided_twice_eq:
  "run_cycle (toy linear_schedule) 0
     (projr (run_setup (toy linear_schedule)
        (projr (init (toy linear_schedule) one_tensor (conf 10 3 5 2 2) None))))
   = Inr strided_twice"
proof -
  have "\<exists>r. run_cycle (toy linear_schedule) 0
     (projr (run_setup (toy linear_schedule)
        (projr (init (toy linear_schedule) one_tensor (conf 10 3 5 2 2) None)))) = Inr r"
    by (simp add: run_defs)
  then show ?thesis by (auto simp: strided_twice_def)
qed

text \<open>
  Claim C1. In the scenario \<^verbatim>\<open>epochs_per_cycle=10, warmup_epochs=3, sample_epochs=5, skip=1,
  cycles=1\<close> the run fills 5 snapshots of the tensor and 5 rates. With \<^verbatim>\<open>skip=2\<close> the
  offsets 0, 2 and 4 are written, three writes for \<^verbatim>\<open>num_samples = 5 // 2 = 2\<close> slots of
  the cycle: with one cycle the third write raises \<^verbatim>\<open>IndexError\<close> in the last epoch of
  the run, and with two cycles the third write of cycle 0 lands in slot 2, the first slot
  of cycle 1.
\<close>

theorem sample_write_leaves_cycle_range:
  "run (toy linear_schedule) fresh = Inr finished
   \<and> get_samples finished ''w.p'' = Some [[1, - 2], [- 2, 1], [1, - 2], [- 2, 1], [1, - 2]]
   \<and> get_samples finished ''lr'' = Some [[4], [3], [2], [1], [10]]
   \<and> init (toy linear_schedule) one_tensor (conf 10 3 5 2 1) None = Inr strided
   \<and> num_samples strided = 2
   \<and> run (toy linear_schedule) strided = Inl IndexError
   \<and> run_cycle (toy linear_schedule) 0
        (projr (run_setup (toy linear_schedule)
           (projr (init (toy linear_schedule) one_tensor (conf 10 3 5 2 2) None))))
      = Inr strided_twice
   \<and> num_samples strided_twice = 2
   \<and> get_samples strided_twice ''lr'' = Some [[4], [2], [10], [0]]"
proof -
  have 1: "get_samples finished ''w.p'' = Some [[1, - 2], [- 2, 1], [1, - 2], [- 2, 1], [1, - 2]]"
    "get_samples finished ''lr'' = Some [[4], [3], [2], [1], [10]]"
    by (simp_all add: finished_def fresh_def run_defs eval_nat_numeral)
  have 2: "num_samples strided = 2"
    using init_Inr_fields [OF strided_eq] by (simp add: conf_def)
  have 3: "num_samples strided_twice = 2"
    "get_samples strided_twice ''lr'' = Some [[4], [2], [10], [0]]"
    by (simp_all add: strided_twice_def run_defs eval_nat_numeral)
  from 1 2 3 finished_eq strided_eq strided_run strided_twice_eq show ?thesis
    by simp
qed

section \<open>Metropolis-Hastings rejection\<close>

lemma apply_update_frame [simp]:
  "v_saved (apply_update f s) = v_saved s" "v_temperature (apply_update f s) = v_temperature s"
  by (simp_all add: apply_update_def)

lemma interior_steps_frame [simp]:
  "v_saved (interior_steps potential full n s) = v_saved s"
  "v_temperature (interior_steps potential full n s) = v_temperature s"
  by (induction n arbitrary: s) (simp_all add: verlet_step_def)

lemma proposal_frame:
  "fst (proposal potential first_half full second_half n s) = potential (v_params s)"
  "v_saved (snd (snd (proposal potential first_half full second_half n s)))
     = Some (v_params s, v_momenta s)"
  "v_temperature (snd (snd (proposal potential first_half full second_half n s))) = v_temperature s"
  by (simp_all add: proposal_def initial_step_def final_step_def Let_def)

text \<open>
  Claim C6. After \<^verbatim>\<open>initial_step(save_state=True)\<close>, any number of full steps and
  \<^verbatim>\<open>final_step\<close>, with a non-zero temperature, \<^verbatim>\<open>maybe_reject\<close> returns; it rejects exactly
  when \<open>u > exp (- delta_energy / temperature)\<close>; on rejection every parameter value
  and every momentum buffer equals the snapshot and the potential recomputed at the
  restored values equals the loss \<^verbatim>\<open>initial_step\<close> returned; otherwise the sampler is
  unchanged.
\<close>

theorem rejection_restores_snapshot:
  assumes "v_temperature s0 \<noteq> 0"
    and "proposal potential first_half full second_half n s0 = (loss0, loss, s3)"
  shows "\<exists>rejected s4. maybe_reject u delta_energy s3 = Inr (rejected, s4)
     \<and> (rejected \<longleftrightarrow> u > exp (- delta_energy / v_temperature s0))
     \<and> (rejected \<longrightarrow> v_params s4 = v_params s0 \<and> v_momenta s4 = v_momenta s0
                        \<and> potential (v_params s4) = loss0)
     \<and> (\<not> rejected \<longrightarrow> s4 = s3)"
proof -
  from proposal_frame [of potential first_half full second_half n s0] assms(2)
  have p: "loss0 = potential (v_params s0)"
    and s: "v_saved s3 = Some (v_params s0, v_momenta s0)"
    and t: "v_temperature s3 = v_temperature s0"
    by simp_all
  show ?thesis
  proof (cases "u > exp (- delta_energy / v_temperature s0)")
    case True
    with assms(1) s t have "maybe_reject u delta_energy s3
        = Inr (True, s3\<lparr>v_params := v_params s0, v_momenta := v_momenta s0\<rparr>)"
      by (simp add: maybe_reject_def)
    with True p show ?thesis
      by (intro exI [of _ True] exI [of _ "s3\<lparr>v_params := v_params s0, v_momenta := v_momenta s0\<rparr>"])
        simp
  next
    case False
    with assms(1) t have "maybe_reject u delta_energy s3 = Inr (False, s3)"
      by (simp add: maybe_reject_def)
    with False show ?thesis
      by (intro exI [of _ False] exI [of _ s3]) simp
  qed
qed

theorem rejection_restores_snapshot_witness:
  "v_temperature walker \<noteq> 0
   \<and> fst (proposal sum_potential drift drift drift 3 walker) = 3
   \<and> v_params (snd (snd (proposal sum_potential drift drift drift 3 walker))) = [[6, 7]]
   \<and> 2 > exp (- 0 / v_temperature walker)
   \<and> maybe_reject 2 0 (snd (snd (proposal sum_potential drift drift drift 3 walker)))
        = Inr (True, (snd (snd (proposal sum_potential drift drift drift 3 walker)))
                       \<lparr>v_params := [[1, 2]], v_momenta := [[0, 0]]\<rparr>)"
proof -
  let ?p = "proposal sum_potential drift drift drift 3 walker"
  have h1: "v_temperature walker \<noteq> 0" by (simp add: walker_def)
  have h2: "?p = (fst ?p, fst (snd ?p), snd (snd ?p))" by simp
  from rejection_restores_snapshot [OF h1 h2, of 2 0]
  obtain rejected s4 where m: "maybe_reject 2 0 (snd (snd ?p)) = Inr (rejected, s4)"
    and r: "rejected \<longleftrightarrow> 2 > exp (- 0 / v_temperature walker)"
    and v: "rejected \<longrightarrow> v_params s4 = v_params walker \<and> v_momenta s4 = v_momenta walker
              \<and> sum_potential (v_params s4) = fst ?p"
    by blast
  have e: "(2::real) > exp (- 0 / v_temperature walker)" by (simp add: walker_def)
  with r have rej: rejected by simp
  with v have "fst ?p = sum_potential (v_params walker)" by metis
  then have f: "fst ?p = 3" by (simp add: walker_def sum_potential_def)
  have q: "v_params (snd (snd ?p)) = [[6, 7]]"
    by (simp add: proposal_def initial_step_def final_step_def verlet_step_def apply_update_def
        drift_def walker_def Let_def numeral_3_eq_3)
  from m rej have "maybe_reject 2 0 (snd (snd ?p))
      = Inr (True, (snd (snd ?p))\<lparr>v_params := [[1, 2]], v_momenta := [[0, 0]]\<rparr>)"
    by (auto simp: maybe_reject_def proposal_frame walker_def split: if_splits option.splits)
  with h1 f q e show ?thesis by simp
qed

end
